theory Spec2Isabelle
  imports Main
begin

section \<open>Values of the host language\<close>

text \<open>
  A thrown value: an \<open>Error\<close> object with its \<open>name\<close> and \<open>message\<close>, or any other
  value, kept as the text \<open>String(value)\<close> gives for it.
\<close>

datatype thrown = ErrorObj string string | NonError string

text \<open>\<open>error instanceof Error ? error.message : String(error)\<close> (index.ts, line 241).\<close>

fun catch_text :: "thrown \<Rightarrow> string" where
  "catch_text (ErrorObj n m) = m"
| "catch_text (NonError s) = s"

text \<open>\<open>String(error)\<close>, as the template of line 293 applies it.\<close>

fun String_of :: "thrown \<Rightarrow> string" where
  "String_of (ErrorObj n m) =
     (if n = [] then m else if m = [] then n else n @ '': '' @ m)"
| "String_of (NonError s) = s"

text \<open>Truthiness of an optional string: \<open>undefined\<close> and the empty string are falsy.\<close>

fun truthy :: "string option \<Rightarrow> bool" where
  "truthy None = False"
| "truthy (Some s) = (s \<noteq> [])"

text \<open>\<open>x || d\<close> on an optional string.\<close>

fun or_else :: "string option \<Rightarrow> string \<Rightarrow> string" where
  "or_else None d = d"
| "or_else (Some s) d = (if s = [] then d else s)"

text \<open>\<open>x || 50\<close> on an optional number: \<open>undefined\<close> and \<open>0\<close> are falsy.\<close>

fun num_or :: "int option \<Rightarrow> int \<Rightarrow> int" where
  "num_or None d = d"
| "num_or (Some n) d = (if n = 0 then d else n)"

text \<open>
  A \<open>Date\<close> object is its time value in milliseconds; \<open>None\<close> is the Invalid Date, whose
  time value is NaN. Every comparison with NaN is false.
\<close>

type_synonym js_date = "int option"

fun date_lt :: "int \<Rightarrow> js_date \<Rightarrow> bool" where
  "date_lt t None = False"
| "date_lt t (Some d) = (t < d)"

fun date_gt :: "int \<Rightarrow> js_date \<Rightarrow> bool" where
  "date_gt t None = False"
| "date_gt t (Some d) = (t > d)"

text \<open>\<open>String.prototype.includes\<close>, on strings as lists of characters.\<close>

fun starts_with :: "string \<Rightarrow> string \<Rightarrow> bool" where
  "starts_with s [] = True"
| "starts_with [] (c # t) = False"
| "starts_with (d # s) (c # t) = (d = c \<and> starts_with s t)"

fun str_includes :: "string \<Rightarrow> string \<Rightarrow> bool" where
  "str_includes [] t = (t = [])"
| "str_includes (d # s) t = (starts_with (d # s) t \<or> str_includes s t)"

section \<open>Data model\<close>

record attachment =
  att_name :: string
  att_url :: string
  att_size :: nat
  att_contentType :: "string option"

text \<open>The accessors of a fetched \<open>Message\<close> that the server reads.\<close>

record message =
  msg_id :: string
  msg_username :: string
  msg_authorId :: string
  msg_content :: string
  createdTimestamp :: int
  msg_attachments :: "attachment list"
  msg_embeds :: nat
  msg_reactions :: nat

text \<open>
  The object pushed onto \<open>allMessages\<close> (lines 450 to 464). \<open>p_timestamp\<close> is the instant
  that \<open>msg.createdAt.toISOString()\<close> renders.
\<close>

record att_projection =
  pa_name :: string
  pa_url :: string
  pa_size :: nat
  pa_contentType :: "string option"

record projection =
  p_id :: string
  p_author :: string
  p_authorId :: string
  p_content :: string
  p_timestamp :: int
  p_attachments :: "att_projection list"
  p_embeds :: nat
  p_reactions :: nat

definition project_att :: "attachment \<Rightarrow> att_projection" where
  "project_att att =
     \<lparr>pa_name = att_name att, pa_url = att_url att, pa_size = att_size att,
      pa_contentType = att_contentType att\<rparr>"

definition project :: "message \<Rightarrow> projection" where
  "project msg =
     \<lparr>p_id = msg_id msg, p_author = msg_username msg, p_authorId = msg_authorId msg,
      p_content = msg_content msg, p_timestamp = createdTimestamp msg,
      p_attachments = map project_att (msg_attachments msg),
      p_embeds = msg_embeds msg, p_reactions = msg_reactions msg\<rparr>"

text \<open>The parameter object of \<open>getMessagesAdvanced\<close> (lines 365 to 375).\<close>

record params =
  channelId :: string
  limit :: "int option"
  before :: "string option"
  after :: "string option"
  startDate :: "string option"
  endDate :: "string option"
  keyword :: "string option"
  author :: "string option"
  hasAttachments :: "bool option"

text \<open>The summary object (lines 481 to 496).\<close>

datatype date_range = Range_none | Range "int option" "int option"

record summary =
  total :: nat
  f_dateRange :: date_range
  f_keyword :: string
  f_author :: string
  f_hasAttachments :: bool
  pg_before :: string
  pg_after :: string
  pg_totalFetched :: nat

text \<open>The objects the two simple retrieval tools serialise (lines 306 to 316, 342 to 350).\<close>

record basic_att =
  ba_name :: string
  ba_url :: string
  ba_size :: nat

record basic_projection =
  b_id :: string
  b_author :: string
  b_content :: string
  b_timestamp :: int
  b_attachments :: "basic_att list"

record image_projection =
  i_messageId :: string
  i_author :: string
  i_timestamp :: int
  i_filename :: string
  i_url :: string
  i_size :: nat
  i_contentType :: string

text \<open>
  A response text is a template literal: literal text, an interpolated number, and
  interpolated \<open>JSON.stringify(_, null, 2)\<close> renderings, in the order of the template.
\<close>

datatype text_part =
    Lit string
  | Num nat
  | Json_summary summary
  | Json_messages "projection list"
  | Json_basic "basic_projection list"
  | Json_images "image_projection list"

text \<open>\<open>{ content: [{ type: 'text', text: ... }] }\<close>: always one text payload.\<close>

datatype tool_result = Text_content "text_part list"

section \<open>Collaborators\<close>

record fetch_options =
  fo_limit :: int
  fo_before :: "string option"
  fo_after :: "string option"

text \<open>\<open>messages.fetch\<close> resolves to one \<open>Message\<close> or to a \<open>Collection\<close> of them.\<close>

datatype fetch_result = A_message message | A_collection "message list"

datatype send_payload = Send_text "string option" | Send_files string string

text \<open>
  A text channel. \<open>messages_fetch\<close> takes the number of fetches already issued in this
  invocation, so that the remote history may change between calls.
\<close>

record channel =
  isTextBased :: bool
  messages_fetch :: "nat \<Rightarrow> fetch_options \<Rightarrow> thrown + fetch_result"
  send :: "send_payload \<Rightarrow> thrown + string"

text \<open>
  The process environment, the chat client and the two functions of the host's library
  that the scan calls and that are not modelled here: \<open>Date_parse\<close> is the time value of
  \<open>new Date(s)\<close>, \<open>None\<close> for a string that does not parse, and \<open>toLowerCase\<close> is
  \<open>String.prototype.toLowerCase\<close>, whatever letters it folds.
\<close>

record env =
  isReady :: bool
  DISCORD_BOT_TOKEN :: "string option"
  login :: "string \<Rightarrow> thrown option"
  channels_fetch :: "string \<Rightarrow> thrown + channel option"
  Date_parse :: "string \<Rightarrow> int option"
  toLowerCase :: "string \<Rightarrow> string"

section \<open>The server\<close>

text \<open>\<open>ensureDiscordReady\<close> (lines 508 to 520).\<close>

definition ensureDiscordReady :: "env \<Rightarrow> thrown + unit" where
  "ensureDiscordReady e =
     (if isReady e then Inr ()
      else if \<not> truthy (DISCORD_BOT_TOKEN e)
        then Inl (ErrorObj ''Error'' ''DISCORD_BOT_TOKEN environment variable is required'')
      else (case login e (the (DISCORD_BOT_TOKEN e)) of
              Some x \<Rightarrow> Inl x
            | None \<Rightarrow> Inr ()))"

text \<open>
  The opening of every tool: the client is made ready, the channel fetched and checked
  (lines 250 to 255, 376 to 381).
\<close>

definition open_channel :: "env \<Rightarrow> string \<Rightarrow> thrown + channel" where
  "open_channel e cid =
     (case ensureDiscordReady e of
        Inl x \<Rightarrow> Inl x
      | Inr _ \<Rightarrow>
         (case channels_fetch e cid of
            Inl x \<Rightarrow> Inl x
          | Inr None \<Rightarrow> Inl (ErrorObj ''Error'' ''Channel not found or is not a text channel'')
          | Inr (Some ch) \<Rightarrow>
             if \<not> isTextBased ch
             then Inl (ErrorObj ''Error'' ''Channel not found or is not a text channel'')
             else Inr ch))"

subsection \<open>The scan of \<open>getMessagesAdvanced\<close>\<close>

definition maxIterations :: nat where
  "maxIterations = 10"

text \<open>The mutable locals of the scan, and the fetch calls issued so far.\<close>

record scan_state =
  allMessages :: "projection list"
  lastMessageId :: "string option"
  totalFetched :: nat
  iterations :: nat
  calls :: "fetch_options list"

text \<open>\<open>params.startDate ? new Date(params.startDate) : null\<close> (lines 392, 393).\<close>

definition parse_bound :: "env \<Rightarrow> string option \<Rightarrow> js_date option" where
  "parse_bound e s = (if truthy s then Some (Date_parse e (the s)) else None)"

text \<open>\<open>startDate && msg.createdAt < startDate\<close>, \<open>endDate && msg.createdAt > endDate\<close>.\<close>

fun too_old :: "js_date option \<Rightarrow> message \<Rightarrow> bool" where
  "too_old None msg = False"
| "too_old (Some d) msg = date_lt (createdTimestamp msg) d"

fun too_new :: "js_date option \<Rightarrow> message \<Rightarrow> bool" where
  "too_new None msg = False"
| "too_new (Some d) msg = date_gt (createdTimestamp msg) d"

text \<open>
  The three \<open>continue\<close> filters of lines 432 to 447, true when the message is skipped.
  \<open>lc\<close> is the host's \<open>toLowerCase\<close>.
\<close>

definition keyword_skip :: "(string \<Rightarrow> string) \<Rightarrow> params \<Rightarrow> message \<Rightarrow> bool" where
  "keyword_skip lc ps msg \<longleftrightarrow>
     truthy (keyword ps) \<and>
     \<not> str_includes (lc (msg_content msg)) (lc (the (keyword ps)))"

definition author_skip :: "params \<Rightarrow> message \<Rightarrow> bool" where
  "author_skip ps msg \<longleftrightarrow>
     truthy (author ps) \<and>
     \<not> (msg_username msg = the (author ps) \<or> msg_authorId msg = the (author ps))"

definition attachment_skip :: "params \<Rightarrow> message \<Rightarrow> bool" where
  "attachment_skip ps msg \<longleftrightarrow>
     hasAttachments ps = Some True \<and> length (msg_attachments msg) = 0"

text \<open>
  The \<open>for\<close> loop over the sorted batch (lines 415 to 467). \<open>For_return\<close> is the
  \<open>return\<close> of line 419; \<open>For_done\<close> is the end of the batch or the \<open>break\<close> of line 466.
\<close>

datatype for_exit = For_return "projection list" | For_done "projection list"

fun for_loop ::
  "(string \<Rightarrow> string) \<Rightarrow> params \<Rightarrow> js_date option \<Rightarrow> js_date option \<Rightarrow> int \<Rightarrow> projection list \<Rightarrow> message list
   \<Rightarrow> for_exit" where
  "for_loop lc ps sd ed target acc [] = For_done acc"
| "for_loop lc ps sd ed target acc (msg # rest) =
     (if too_old sd msg then For_return acc
      else if too_new ed msg then for_loop lc ps sd ed target acc rest
      else if keyword_skip lc ps msg then for_loop lc ps sd ed target acc rest
      else if author_skip ps msg then for_loop lc ps sd ed target acc rest
      else if attachment_skip ps msg then for_loop lc ps sd ed target acc rest
      else if int (length (acc @ [project msg])) \<ge> target then For_done (acc @ [project msg])
      else for_loop lc ps sd ed target (acc @ [project msg]) rest)"

text \<open>The fetch options of one iteration (lines 399 to 401).\<close>

definition fetchOptions :: "params \<Rightarrow> scan_state \<Rightarrow> fetch_options" where
  "fetchOptions ps st =
     \<lparr>fo_limit = 100,
      fo_before = (if truthy (lastMessageId st) then lastMessageId st else None),
      fo_after = (if truthy (after ps) then after ps else None)\<rparr>"

text \<open>Lines 405 to 407, then \<open>Array.from(messages.values())\<close>.\<close>

fun messages_of :: "fetch_result \<Rightarrow> message list" where
  "messages_of (A_message m) = [m]"
| "messages_of (A_collection ms) = ms"

text \<open>
  \<open>messageArray.sort((a, b) => b.createdTimestamp - a.createdTimestamp)\<close>: a stable sort,
  newest first.
\<close>

definition sort_newest_first :: "message list \<Rightarrow> message list" where
  "sort_newest_first ms = sort_key (\<lambda>m. - createdTimestamp m) ms"

text \<open>
  One pass through the body of the \<open>while\<close> loop (lines 396 to 477): it returns from the
  function, leaves the loop, or goes round again.
\<close>

datatype body_exit = Body_return scan_state | Body_break scan_state | Body_next scan_state

definition loop_body ::
  "(string \<Rightarrow> string) \<Rightarrow> channel \<Rightarrow> params \<Rightarrow> js_date option \<Rightarrow> js_date option \<Rightarrow> int \<Rightarrow> scan_state
   \<Rightarrow> thrown + body_exit" where
  "loop_body lc ch ps sd ed target st =
     (let st1 = st\<lparr>iterations := iterations st + 1\<rparr>;
          opts = fetchOptions ps st1
      in case messages_fetch ch (length (calls st1)) opts of
           Inl x \<Rightarrow> Inl x
         | Inr fetchResult \<Rightarrow>
            (let st2 = st1\<lparr>calls := calls st1 @ [opts]\<rparr>;
                 messages = messages_of fetchResult
             in if length messages = 0 then Inr (Body_break st2)
                else
                  (let messageArray = sort_newest_first messages
                   in case for_loop lc ps sd ed target (allMessages st2) messageArray of
                        For_return acc \<Rightarrow> Inr (Body_return (st2\<lparr>allMessages := acc\<rparr>))
                      | For_done acc \<Rightarrow>
                         (let st3 = st2\<lparr>allMessages := acc,
                                        lastMessageId :=
                                          (if messageArray = [] then lastMessageId st2
                                           else Some (msg_id (last messageArray))),
                                        totalFetched := totalFetched st2 + length messages\<rparr>
                          in if length messages < 100 then Inr (Body_break st3)
                             else Inr (Body_next st3)))))"

text \<open>
  The \<open>while\<close> loop (line 395). \<open>Returned\<close> is the early \<open>return\<close> from inside the loop,
  \<open>Exited\<close> the normal way out towards the summary.
\<close>

datatype loop_exit = Returned scan_state | Exited scan_state

function while_loop ::
  "(string \<Rightarrow> string) \<Rightarrow> channel \<Rightarrow> params \<Rightarrow> js_date option \<Rightarrow> js_date option \<Rightarrow> int \<Rightarrow> scan_state
   \<Rightarrow> thrown + loop_exit" where
  "while_loop lc ch ps sd ed target st =
     (if int (length (allMessages st)) < target \<and> iterations st < maxIterations
      then (case loop_body lc ch ps sd ed target st of
              Inl x \<Rightarrow> Inl x
            | Inr (Body_return st') \<Rightarrow> Inr (Returned st')
            | Inr (Body_break st') \<Rightarrow> Inr (Exited st')
            | Inr (Body_next st') \<Rightarrow> while_loop lc ch ps sd ed target st')
      else Inr (Exited st))"
  by pat_completeness auto
termination
  by (relation "measure (\<lambda>(lc, ch, ps, sd, ed, target, st). maxIterations - iterations st)")
     (auto simp: loop_body_def Let_def split: sum.splits if_splits for_exit.splits)

declare while_loop.simps [simp del]

text \<open>The locals before the loop (lines 384 to 389).\<close>

definition initial_state :: "params \<Rightarrow> scan_state" where
  "initial_state ps =
     \<lparr>allMessages = [], lastMessageId = before ps, totalFetched = 0, iterations = 0,
      calls = []\<rparr>"

definition targetLimit :: "params \<Rightarrow> int" where
  "targetLimit ps = num_or (limit ps) 50"

text \<open>Lines 376 to 478: everything before the summary.\<close>

definition run_scan :: "env \<Rightarrow> params \<Rightarrow> thrown + loop_exit" where
  "run_scan e ps =
     (case open_channel e (channelId ps) of
        Inl x \<Rightarrow> Inl x
      | Inr ch \<Rightarrow>
         while_loop (toLowerCase e) ch ps (parse_bound e (startDate ps))
           (parse_bound e (endDate ps)) (targetLimit ps) (initial_state ps))"

text \<open>
  \<open>d.toISOString()\<close> inside the summary's template throws a \<open>RangeError\<close> on the Invalid
  Date (lines 484 to 486).
\<close>

definition dateRange ::
  "js_date option \<Rightarrow> js_date option \<Rightarrow> thrown + date_range" where
  "dateRange sd ed =
     (if sd \<noteq> None \<or> ed \<noteq> None
      then (if sd = Some None \<or> ed = Some None
            then Inl (ErrorObj ''RangeError'' ''Invalid time value'')
            else Inr (Range (case sd of None \<Rightarrow> None | Some d \<Rightarrow> d)
                            (case ed of None \<Rightarrow> None | Some d \<Rightarrow> d)))
      else Inr Range_none)"

definition make_summary ::
  "params \<Rightarrow> js_date option \<Rightarrow> js_date option \<Rightarrow> scan_state \<Rightarrow> thrown + summary" where
  "make_summary ps sd ed st =
     (case dateRange sd ed of
        Inl x \<Rightarrow> Inl x
      | Inr r \<Rightarrow>
         Inr \<lparr>total = length (allMessages st),
              f_dateRange = r,
              f_keyword = or_else (keyword ps) ''none'',
              f_author = or_else (author ps) ''any'',
              f_hasAttachments = (hasAttachments ps = Some True),
              pg_before = or_else (before ps) ''none'',
              pg_after = or_else (after ps) ''none'',
              pg_totalFetched = totalFetched st\<rparr>)"

text \<open>The two \<open>return\<close> statements (lines 419 to 426 and 498 to 505).\<close>

definition respond ::
  "params \<Rightarrow> js_date option \<Rightarrow> js_date option \<Rightarrow> loop_exit \<Rightarrow> thrown + tool_result" where
  "respond ps sd ed ex =
     (case ex of
        Returned st \<Rightarrow>
          Inr (Text_content
                 [Lit ''Retrieved '', Num (length (allMessages st)),
                  Lit '' messages matching criteria:\<newline>\<newline>'',
                  Json_messages (allMessages st)])
      | Exited st \<Rightarrow>
          (case make_summary ps sd ed st of
             Inl x \<Rightarrow> Inl x
           | Inr s \<Rightarrow>
              Inr (Text_content
                     [Lit ''Advanced search results:\<newline>\<newline>Summary: '', Json_summary s,
                      Lit ''\<newline>\<newline>Messages:\<newline>'',
                      Json_messages (allMessages st)])))"

definition getMessagesAdvanced :: "env \<Rightarrow> params \<Rightarrow> thrown + tool_result" where
  "getMessagesAdvanced e ps =
     (case run_scan e ps of
        Inl x \<Rightarrow> Inl x
      | Inr ex \<Rightarrow>
         respond ps (parse_bound e (startDate ps)) (parse_bound e (endDate ps)) ex)"

subsection \<open>The other tools\<close>

text \<open>\<open>sendMessage\<close> (lines 249 to 267).\<close>

definition sendMessage :: "env \<Rightarrow> string \<Rightarrow> string option \<Rightarrow> thrown + tool_result" where
  "sendMessage e cid msg =
     (case open_channel e cid of
        Inl x \<Rightarrow> Inl x
      | Inr ch \<Rightarrow>
         (case send ch (Send_text msg) of
            Inl x \<Rightarrow> Inl x
          | Inr sent \<Rightarrow>
             Inr (Text_content
                    [Lit (''Message sent successfully to channel '' @ cid @
                          ''. Message ID: '' @ sent)])))"

text \<open>\<open>sendImage\<close> (lines 269 to 295); the inner \<open>catch\<close> rethrows a new \<open>Error\<close>.\<close>

definition sendImage ::
  "env \<Rightarrow> string \<Rightarrow> string \<Rightarrow> string option \<Rightarrow> thrown + tool_result" where
  "sendImage e cid imagePath msg =
     (case open_channel e cid of
        Inl x \<Rightarrow> Inl x
      | Inr ch \<Rightarrow>
         (case send ch (Send_files (or_else msg []) imagePath) of
            Inl x \<Rightarrow> Inl (ErrorObj ''Error'' (''Failed to send image: '' @ String_of x))
          | Inr sent \<Rightarrow>
             Inr (Text_content
                    [Lit (''Image sent successfully to channel '' @ cid @
                          ''. Message ID: '' @ sent)])))"

definition project_basic :: "message \<Rightarrow> basic_projection" where
  "project_basic msg =
     \<lparr>b_id = msg_id msg, b_author = msg_username msg, b_content = msg_content msg,
      b_timestamp = createdTimestamp msg,
      b_attachments =
        map (\<lambda>att. \<lparr>ba_name = att_name att, ba_url = att_url att, ba_size = att_size att\<rparr>)
          (msg_attachments msg)\<rparr>"

text \<open>
  The two simple tools call \<open>map\<close> and \<open>forEach\<close> on what the fetch resolved to, which
  a single \<open>Message\<close> does not have.
\<close>

definition as_collection :: "string \<Rightarrow> fetch_result \<Rightarrow> thrown + message list" where
  "as_collection method r =
     (case r of
        A_collection ms \<Rightarrow> Inr ms
      | A_message m \<Rightarrow>
         Inl (ErrorObj ''TypeError'' (''messages.'' @ method @ '' is not a function'')))"

text \<open>\<open>getMessages\<close> (lines 297 to 326).\<close>

definition getMessages :: "env \<Rightarrow> string \<Rightarrow> int \<Rightarrow> thrown + tool_result" where
  "getMessages e cid lim =
     (case open_channel e cid of
        Inl x \<Rightarrow> Inl x
      | Inr ch \<Rightarrow>
         (case messages_fetch ch 0 \<lparr>fo_limit = lim, fo_before = None, fo_after = None\<rparr> of
            Inl x \<Rightarrow> Inl x
          | Inr r \<Rightarrow>
             (case as_collection ''map'' r of
                Inl x \<Rightarrow> Inl x
              | Inr ms \<Rightarrow>
                 Inr (Text_content
                        [Lit ''Retrieved '', Num (length (map project_basic ms)),
                         Lit ('' messages from channel '' @ cid @ '':\<newline>\<newline>''),
                         Json_basic (map project_basic ms)]))))"

text \<open>\<open>getImages\<close> (lines 328 to 363).\<close>

definition images_of :: "message \<Rightarrow> image_projection list" where
  "images_of msg =
     concat (map (\<lambda>att.
        (case att_contentType att of
           None \<Rightarrow> []
         | Some ct \<Rightarrow>
            if starts_with ct ''image/''
            then [\<lparr>i_messageId = msg_id msg, i_author = msg_username msg,
                   i_timestamp = createdTimestamp msg, i_filename = att_name att,
                   i_url = att_url att, i_size = att_size att, i_contentType = ct\<rparr>]
            else [])) (msg_attachments msg))"

definition getImages :: "env \<Rightarrow> string \<Rightarrow> int \<Rightarrow> thrown + tool_result" where
  "getImages e cid lim =
     (case open_channel e cid of
        Inl x \<Rightarrow> Inl x
      | Inr ch \<Rightarrow>
         (case messages_fetch ch 0 \<lparr>fo_limit = lim, fo_before = None, fo_after = None\<rparr> of
            Inl x \<Rightarrow> Inl x
          | Inr r \<Rightarrow>
             (case as_collection ''forEach'' r of
                Inl x \<Rightarrow> Inl x
              | Inr ms \<Rightarrow>
                 Inr (Text_content
                        [Lit ''Retrieved '', Num (length (concat (map images_of ms))),
                         Lit ('' images from channel '' @ cid @ '':\<newline>\<newline>''),
                         Json_images (concat (map images_of ms))]))))"

subsection \<open>The tool dispatcher\<close>

text \<open>The argument object of a tool call, with the keys the dispatcher reads.\<close>

record args =
  arg_channel_id :: string
  arg_message :: "string option"
  arg_image_path :: string
  arg_limit :: "int option"
  arg_before :: "string option"
  arg_after :: "string option"
  arg_start_date :: "string option"
  arg_end_date :: "string option"
  arg_keyword :: "string option"
  arg_author :: "string option"
  arg_has_attachments :: "bool option"

record request =
  tool_name :: string
  arguments :: "args option"

text \<open>The body of the \<open>try\<close> block (lines 191 to 235).\<close>

definition try_block :: "env \<Rightarrow> request \<Rightarrow> thrown + tool_result" where
  "try_block e req =
     (case arguments req of
        None \<Rightarrow> Inl (ErrorObj ''Error'' ''Arguments are required'')
      | Some a \<Rightarrow>
         if tool_name req = ''discord_send_message''
           then sendMessage e (arg_channel_id a) (arg_message a)
         else if tool_name req = ''discord_send_image''
           then sendImage e (arg_channel_id a) (arg_image_path a) (arg_message a)
         else if tool_name req = ''discord_get_messages''
           then getMessages e (arg_channel_id a) (num_or (arg_limit a) 10)
         else if tool_name req = ''discord_get_images''
           then getImages e (arg_channel_id a) (num_or (arg_limit a) 50)
         else if tool_name req = ''discord_get_messages_advanced''
           then getMessagesAdvanced e
                  \<lparr>channelId = arg_channel_id a,
                   limit = Some (num_or (arg_limit a) 50),
                   before = arg_before a,
                   after = arg_after a,
                   startDate = arg_start_date a,
                   endDate = arg_end_date a,
                   keyword = arg_keyword a,
                   author = arg_author a,
                   hasAttachments = arg_has_attachments a\<rparr>
         else Inl (ErrorObj ''Error'' (''Unknown tool: '' @ tool_name req)))"

text \<open>The handler of a tool call: the \<open>try\<close> block and its \<open>catch\<close> (lines 189 to 246).\<close>

definition CallTool :: "env \<Rightarrow> request \<Rightarrow> tool_result" where
  "CallTool e req =
     (case try_block e req of
        Inl x \<Rightarrow> Text_content [Lit (''Error: '' @ catch_text x)]
      | Inr r \<Rightarrow> r)"

section \<open>Observations on results\<close>

definition exit_messages :: "for_exit \<Rightarrow> projection list" where
  "exit_messages x = (case x of For_return acc \<Rightarrow> acc | For_done acc \<Rightarrow> acc)"

definition body_state :: "body_exit \<Rightarrow> scan_state" where
  "body_state x = (case x of Body_return st \<Rightarrow> st | Body_break st \<Rightarrow> st | Body_next st \<Rightarrow> st)"

text \<open>The condition of the \<open>while\<close> loop (line 395).\<close>

definition loop_cond :: "int \<Rightarrow> scan_state \<Rightarrow> bool" where
  "loop_cond target st \<longleftrightarrow>
     int (length (allMessages st)) < target \<and> iterations st < maxIterations"

definition exit_state :: "loop_exit \<Rightarrow> scan_state" where
  "exit_state x = (case x of Returned st \<Rightarrow> st | Exited st \<Rightarrow> st)"

text \<open>
  The loop states of one scan: \<open>reaches lc ch ps sd ed target st st'\<close> when the \<open>while\<close>
  loop started in \<open>st\<close> stands at its head in \<open>st'\<close> after some number of rounds.
\<close>

inductive reaches ::
  "(string \<Rightarrow> string) \<Rightarrow> channel \<Rightarrow> params \<Rightarrow> js_date option \<Rightarrow> js_date option \<Rightarrow> int \<Rightarrow> scan_state
   \<Rightarrow> scan_state \<Rightarrow> bool"
  for lc ch ps sd ed target st where
    start: "reaches lc ch ps sd ed target st st"
  | round: "reaches lc ch ps sd ed target st s \<Longrightarrow> loop_cond target s \<Longrightarrow>
            loop_body lc ch ps sd ed target s = Inr (Body_next s') \<Longrightarrow>
            reaches lc ch ps sd ed target st s'"

text \<open>A message that no check of the \<open>for\<close> loop stops or skips.\<close>

definition passes :: "(string \<Rightarrow> string) \<Rightarrow> params \<Rightarrow> js_date option \<Rightarrow> js_date option \<Rightarrow> message \<Rightarrow> bool" where
  "passes lc ps sd ed msg \<longleftrightarrow>
     \<not> too_old sd msg \<and> \<not> too_new ed msg \<and> \<not> keyword_skip lc ps msg \<and>
     \<not> author_skip ps msg \<and> \<not> attachment_skip ps msg"

text \<open>The message projections a response text carries.\<close>

fun part_messages :: "text_part \<Rightarrow> projection list" where
  "part_messages (Json_messages ms) = ms"
| "part_messages _ = []"

fun response_messages :: "tool_result \<Rightarrow> projection list" where
  "response_messages (Text_content parts) = concat (map part_messages parts)"

text \<open>
  The layout of a response text: which kinds of part occur in it, in which order.
  \<open>in_order ks parts\<close> holds when parts of the kinds \<open>ks\<close> occur in \<open>parts\<close> in that
  order.
\<close>

fun is_count :: "text_part \<Rightarrow> bool" where
  "is_count (Num n) = True"
| "is_count _ = False"

fun is_summary :: "text_part \<Rightarrow> bool" where
  "is_summary (Json_summary s) = True"
| "is_summary _ = False"

fun is_messages :: "text_part \<Rightarrow> bool" where
  "is_messages (Json_messages ms) = True"
| "is_messages _ = False"

fun in_order :: "(text_part \<Rightarrow> bool) list \<Rightarrow> text_part list \<Rightarrow> bool" where
  "in_order [] parts = True"
| "in_order (k # ks) [] = False"
| "in_order (k # ks) (x # parts) =
     (if k x then in_order ks parts else in_order (k # ks) parts)"

text \<open>A count line, then a summary, then the array of messages.\<close>

definition count_summary_messages :: "text_part list \<Rightarrow> bool" where
  "count_summary_messages parts = in_order [is_count, is_summary, is_messages] parts"

text \<open>
  A query whose filters match no message of the channel: whatever a fetch brings, the
  \<open>for\<close> loop stops at it or skips it.
\<close>

definition nothing_passes :: "env \<Rightarrow> params \<Rightarrow> bool" where
  "nothing_passes e ps \<longleftrightarrow>
     (\<forall>ch i opts r m.
        channels_fetch e (channelId ps) = Inr (Some ch) \<longrightarrow>
        messages_fetch ch i opts = Inr r \<longrightarrow>
        m \<in> set (messages_of r) \<longrightarrow>
        \<not> passes (toLowerCase e) ps (parse_bound e (startDate ps))
            (parse_bound e (endDate ps)) m)"

text \<open>A start or end date that was supplied and does not parse.\<close>

definition unparseable :: "env \<Rightarrow> string option \<Rightarrow> bool" where
  "unparseable e d \<longleftrightarrow> truthy d \<and> Date_parse e (the d) = None"

text \<open>Message records from newest to oldest: no later element is newer than an earlier one.\<close>

definition newest_first :: "projection list \<Rightarrow> bool" where
  "newest_first ps = sorted_wrt (\<lambda>a b. p_timestamp b \<le> p_timestamp a) ps"

text \<open>
  What the scan expects of the collaborator's pagination. An identifier carries the
  instant \<open>stamp\<close> of its message, no message has the empty identifier, and a fetch with
  a \<open>before\<close> cursor brings no message newer than the cursor.
\<close>

definition honours_before :: "(string \<Rightarrow> int) \<Rightarrow> channel \<Rightarrow> bool" where
  "honours_before stamp ch \<longleftrightarrow>
     (\<forall>i opts r m.
        messages_fetch ch i opts = Inr r \<longrightarrow> m \<in> set (messages_of r) \<longrightarrow>
        createdTimestamp m = stamp (msg_id m) \<and> msg_id m \<noteq> [] \<and>
        (\<forall>c. fo_before opts = Some c \<longrightarrow> stamp (msg_id m) \<le> stamp c))"

section \<open>Concrete histories\<close>

text \<open>
  Message number \<open>k\<close> of a test channel: its identifier is \<open>k\<close> in three decimal
  digits and it was created at instant \<open>k\<close>, so that a larger identifier is a later
  message.
\<close>

definition id_of :: "nat \<Rightarrow> string" where
  "id_of k =
     [char_of (48 + k div 100 mod 10), char_of (48 + k div 10 mod 10), char_of (48 + k mod 10)]"

definition mk_msg :: "nat \<Rightarrow> string \<Rightarrow> string \<Rightarrow> string \<Rightarrow> attachment list \<Rightarrow> message" where
  "mk_msg k name uid text atts =
     \<lparr>msg_id = id_of k, msg_username = name, msg_authorId = uid,
      msg_content = text, createdTimestamp = int k, msg_attachments = atts,
      msg_embeds = 0, msg_reactions = 0\<rparr>"

definition nth_msg :: "nat \<Rightarrow> message" where
  "nth_msg k = mk_msg k ''alice'' ''42'' ''hello'' []"

definition a_file :: attachment where
  "a_file =
     \<lparr>att_name = ''log.txt'', att_url = ''https://cdn.example/log.txt'', att_size = 12,
      att_contentType = Some ''text/plain''\<rparr>"

fun digits_value :: "string \<Rightarrow> nat \<Rightarrow> nat option" where
  "digits_value [] acc = Some acc"
| "digits_value (c # cs) acc =
     (if (48 :: nat) \<le> of_char c \<and> of_char c \<le> (57 :: nat)
      then digits_value cs (10 * acc + (of_char c - 48))
      else None)"

text \<open>
  A collaborator given by the pages it serves: the \<open>i\<close>-th fetch of an invocation is
  answered by the \<open>i\<close>-th page, and by the empty collection once the pages run out.
\<close>

definition serve :: "message list list \<Rightarrow> nat \<Rightarrow> fetch_options \<Rightarrow> thrown + fetch_result" where
  "serve pages i opts = Inr (A_collection (if i < length pages then pages ! i else []))"

text \<open>
  A collaborator that pages through a history by the cursor: up to \<open>limit\<close> of its
  messages older than the \<open>before\<close> cursor, in the order of the history. \<open>id_stamp\<close>
  reads the instant of a message off its identifier.
\<close>

definition id_stamp :: "string \<Rightarrow> int" where
  "id_stamp c = (case digits_value c 0 of None \<Rightarrow> 0 | Some k \<Rightarrow> int k)"

definition cursor_fetch :: "message list \<Rightarrow> nat \<Rightarrow> fetch_options \<Rightarrow> thrown + fetch_result" where
  "cursor_fetch hist i opts =
     Inr (A_collection
            (take (nat (fo_limit opts))
               (filter (\<lambda>m. case fo_before opts of
                                None \<Rightarrow> True
                              | Some c \<Rightarrow> id_stamp (msg_id m) < id_stamp c) hist)))"

text \<open>The page of messages \<open>hi - 1, ..., lo\<close>, newest first.\<close>

definition page :: "nat \<Rightarrow> nat \<Rightarrow> message list" where
  "page lo hi = map nth_msg (rev [lo..<hi])"

definition test_channel :: "(nat \<Rightarrow> fetch_options \<Rightarrow> thrown + fetch_result) \<Rightarrow> channel" where
  "test_channel f =
     \<lparr>isTextBased = True, messages_fetch = f, send = (\<lambda>p. Inr ''1'')\<rparr>"

text \<open>A ready client with one channel; dates are written as \<open>@\<close> and decimal digits.\<close>

definition test_parse :: "string \<Rightarrow> int option" where
  "test_parse s =
     (case s of
        [] \<Rightarrow> None
      | c # cs \<Rightarrow>
         if c = CHR ''@'' \<and> cs \<noteq> [] then map_option int (digits_value cs 0) else None)"

text \<open>A lower-casing for the test environment: it folds the ASCII letters.\<close>

definition lower_char :: "char \<Rightarrow> char" where
  "lower_char c =
     (if (65 :: nat) \<le> of_char c \<and> of_char c \<le> (90 :: nat)
      then char_of (of_char c + (32 :: nat)) else c)"

definition ascii_lower :: "string \<Rightarrow> string" where
  "ascii_lower s = map lower_char s"

definition test_env :: "(nat \<Rightarrow> fetch_options \<Rightarrow> thrown + fetch_result) \<Rightarrow> env" where
  "test_env f =
     \<lparr>isReady = True, DISCORD_BOT_TOKEN = None, login = (\<lambda>t. None),
      channels_fetch = (\<lambda>cid. Inr (Some (test_channel f))), Date_parse = test_parse,
      toLowerCase = ascii_lower\<rparr>"

definition no_filters :: params where
  "no_filters =
     \<lparr>channelId = ''7'', limit = None, before = None, after = None, startDate = None,
      endDate = None, keyword = None, author = None, hasAttachments = None\<rparr>"

definition no_args :: args where
  "no_args =
     \<lparr>arg_channel_id = ''7'', arg_message = None, arg_image_path = [], arg_limit = None,
      arg_before = None, arg_after = None, arg_start_date = None, arg_end_date = None,
      arg_keyword = None, arg_author = None, arg_has_attachments = None\<rparr>"

text \<open>A page on which every filter of the advanced tool decides something.\<close>

definition mixed_page :: "message list" where
  "mixed_page =
     [mk_msg 9 ''alice'' ''42'' ''an Error occurred'' [a_file],
      mk_msg 7 ''alice'' ''42'' ''Disk ERROR'' [a_file],
      mk_msg 6 ''alice'' ''42'' ''all fine'' [a_file],
      mk_msg 5 ''bob'' ''alice'' ''error again'' [a_file],
      mk_msg 4 ''alice'' ''42'' ''error without file'' [],
      mk_msg 3 ''carol'' ''43'' ''error of carol'' [a_file]]"

definition all_filters :: params where
  "all_filters =
     \<lparr>channelId = ''7'', limit = Some 5, before = None, after = None,
      startDate = Some ''@2'', endDate = Some ''@8'', keyword = Some ''ERROR'',
      author = Some ''alice'', hasAttachments = Some True\<rparr>"

definition mixed_matches :: "projection list" where
  "mixed_matches =
     [project (mk_msg 7 ''alice'' ''42'' ''Disk ERROR'' [a_file]),
      project (mk_msg 5 ''bob'' ''alice'' ''error again'' [a_file])]"

definition mixed_response :: "text_part list" where
  "mixed_response =
     [Lit ''Advanced search results:\<newline>\<newline>Summary: '',
      Json_summary
        \<lparr>total = 2, f_dateRange = Range (Some 2) (Some 8), f_keyword = ''ERROR'',
         f_author = ''alice'', f_hasAttachments = True, pg_before = ''none'',
         pg_after = ''none'', pg_totalFetched = 6\<rparr>,
      Lit ''\<newline>\<newline>Messages:\<newline>'',
      Json_messages mixed_matches]"

text \<open>A page that crosses a start date of \<open>3\<close>.\<close>

definition cut_page :: "message list" where
  "cut_page = [nth_msg 5, nth_msg 4, nth_msg 2, nth_msg 1]"

definition since_three :: params where
  "since_three = no_filters\<lparr>startDate := Some ''@3''\<rparr>"

text \<open>Queries that match nothing on \<open>cut_page\<close>: by the start date, and by the keyword.\<close>

definition future_start :: params where
  "future_start = no_filters\<lparr>startDate := Some ''@100''\<rparr>"

definition no_match :: params where
  "no_match = no_filters\<lparr>keyword := Some ''zzz''\<rparr>"

text \<open>A start date that does not parse.\<close>

definition bad_start :: params where
  "bad_start = no_filters\<lparr>startDate := Some ''yesterday''\<rparr>"

text \<open>An end date that does not parse, beside a start date that does.\<close>

definition late_end :: params where
  "late_end = since_three\<lparr>endDate := Some ''tomorrow''\<rparr>"

text \<open>The response to a query without filters on \<open>cut_page\<close>.\<close>

definition cut_response :: "text_part list" where
  "cut_response =
     [Lit ''Advanced search results:\<newline>\<newline>Summary: '',
      Json_summary
        \<lparr>total = 4, f_dateRange = Range_none, f_keyword = ''none'', f_author = ''any'',
         f_hasAttachments = False, pg_before = ''none'', pg_after = ''none'',
         pg_totalFetched = 4\<rparr>,
      Lit ''\<newline>\<newline>Messages:\<newline>'',
      Json_messages (map project cut_page)]"


text \<open>An author that is supplied and is the empty string.\<close>

definition empty_author :: params where
  "empty_author = no_filters\<lparr>author := Some []\<rparr>"

section \<open>The loops\<close>

lemma starts_with_iff: "starts_with s t \<longleftrightarrow> (\<exists>post. s = t @ post)"
  by (induction s t rule: starts_with.induct) auto

lemma str_includes_iff: "str_includes s t \<longleftrightarrow> (\<exists>pre post. s = pre @ t @ post)"
proof (induction s)
  case Nil
  then show ?case by simp
next
  case (Cons d s)
  show ?case
  proof
    assume "str_includes (d # s) t"
    then consider "starts_with (d # s) t" | "str_includes s t" by auto
    then show "\<exists>pre post. d # s = pre @ t @ post"
    proof cases
      case 1
      then obtain post where "d # s = t @ post" by (auto simp: starts_with_iff)
      then have "d # s = [] @ t @ post" by simp
      then show ?thesis by blast
    next
      case 2
      then obtain pre post where "s = pre @ t @ post" using Cons.IH by blast
      then have "d # s = (d # pre) @ t @ post" by simp
      then show ?thesis by blast
    qed
  next
    assume "\<exists>pre post. d # s = pre @ t @ post"
    then obtain pre post where eq: "d # s = pre @ t @ post" by blast
    show "str_includes (d # s) t"
    proof (cases pre)
      case Nil
      then have "starts_with (d # s) t" using eq by (auto simp: starts_with_iff)
      then show ?thesis by simp
    next
      case (Cons a pre')
      then have "s = pre' @ t @ post" using eq by simp
      then have "str_includes s t" using Cons.IH by blast
      then show ?thesis by simp
    qed
  qed
qed

lemma while_loop_unfold:
  "while_loop lc ch ps sd ed target st =
     (if loop_cond target st
      then (case loop_body lc ch ps sd ed target st of
              Inl x \<Rightarrow> Inl x
            | Inr (Body_return st') \<Rightarrow> Inr (Returned st')
            | Inr (Body_break st') \<Rightarrow> Inr (Exited st')
            | Inr (Body_next st') \<Rightarrow> while_loop lc ch ps sd ed target st')
      else Inr (Exited st))"
  by (subst while_loop.simps) (simp add: loop_cond_def)

lemma while_loop_invariant:
  assumes run: "while_loop lc ch ps sd ed target st = Inr ex"
    and init: "I st"
    and step: "\<And>s bx. I s \<Longrightarrow> loop_cond target s \<Longrightarrow>
                 loop_body lc ch ps sd ed target s = Inr bx \<Longrightarrow> I (body_state bx)"
  shows "I (exit_state ex)"
  using run init step
proof (induction lc ch ps sd ed target st rule: while_loop.induct)
  case (1 lc ch ps sd ed target st)
  show ?case
  proof (cases "loop_cond target st")
    case False
    then have "ex = Exited st" using "1.prems"(1) by (simp add: while_loop_unfold)
    then show ?thesis using "1.prems"(2) by (simp add: exit_state_def)
  next
    case True
    then obtain bx where bx: "loop_body lc ch ps sd ed target st = Inr bx"
      using "1.prems"(1) by (cases "loop_body lc ch ps sd ed target st") (auto simp: while_loop_unfold)
    have Ibx: "I (body_state bx)" using "1.prems"(3) [OF "1.prems"(2) True bx] .
    show ?thesis
    proof (cases bx)
      case (Body_return s')
      then have "ex = Returned s'" using "1.prems"(1) True bx by (simp add: while_loop_unfold)
      then show ?thesis using Ibx Body_return by (simp add: exit_state_def body_state_def)
    next
      case (Body_break s')
      then have "ex = Exited s'" using "1.prems"(1) True bx by (simp add: while_loop_unfold)
      then show ?thesis using Ibx Body_break by (simp add: exit_state_def body_state_def)
    next
      case (Body_next s')
      then have run': "while_loop lc ch ps sd ed target s' = Inr ex"
        using "1.prems"(1) True bx by (simp add: while_loop_unfold)
      have c: "int (length (allMessages st)) < target \<and> iterations st < maxIterations"
        using True by (simp add: loop_cond_def)
      have "I s'" using Ibx Body_next by (simp add: body_state_def)
      from "1.IH" [OF c bx Body_next run' this "1.prems"(3)] show ?thesis .
    qed
  qed
qed

lemma for_loop_members:
  "p \<in> set (exit_messages (for_loop lc ps sd ed target acc ms)) \<Longrightarrow>
   p \<in> set acc \<or> (\<exists>m\<in>set ms. passes lc ps sd ed m \<and> p = project m)"
proof (induction ms arbitrary: acc)
  case Nil
  then show ?case by (simp add: exit_messages_def)
next
  case (Cons a ms)
  show ?case
  proof (cases "passes lc ps sd ed a")
    case False
    then have "for_loop lc ps sd ed target acc (a # ms) = For_return acc \<or>
               for_loop lc ps sd ed target acc (a # ms) = for_loop lc ps sd ed target acc ms"
      by (auto simp: passes_def)
    then show ?thesis using Cons.prems Cons.IH [of acc] by (auto simp: exit_messages_def)
  next
    case True
    then have "for_loop lc ps sd ed target acc (a # ms) = For_done (acc @ [project a]) \<or>
               for_loop lc ps sd ed target acc (a # ms) =
                 for_loop lc ps sd ed target (acc @ [project a]) ms"
      by (auto simp: passes_def)
    then show ?thesis
      using Cons.prems Cons.IH [of "acc @ [project a]"] True by (auto simp: exit_messages_def)
  qed
qed

lemma set_sort_newest_first [simp]: "set (sort_newest_first ms) = set ms"
  by (simp add: sort_newest_first_def)

lemma length_sort_newest_first [simp]: "length (sort_newest_first ms) = length ms"
  by (simp add: sort_newest_first_def)

lemma loop_body_members:
  assumes "loop_body lc ch ps sd ed target st = Inr bx"
    and "p \<in> set (allMessages (body_state bx))"
  shows "p \<in> set (allMessages st) \<or> (\<exists>m. passes lc ps sd ed m \<and> p = project m)"
proof -
  let ?opts = "fetchOptions ps (st\<lparr>iterations := iterations st + 1\<rparr>)"
  obtain r where r: "messages_fetch ch (length (calls st)) ?opts = Inr r"
    using assms(1) by (cases "messages_fetch ch (length (calls st)) ?opts") (auto simp: loop_body_def Let_def)
  let ?fl = "for_loop lc ps sd ed target (allMessages st) (sort_newest_first (messages_of r))"
  have "allMessages (body_state bx) = allMessages st \<or> allMessages (body_state bx) = exit_messages ?fl"
    using assms(1) r
    by (auto simp: loop_body_def Let_def body_state_def exit_messages_def
             split: if_splits for_exit.splits)
  then show ?thesis
    using assms(2) for_loop_members [of p lc ps sd ed target "allMessages st" "sort_newest_first (messages_of r)"]
    by auto
qed

lemma while_loop_members:
  assumes "while_loop lc ch ps sd ed target st = Inr ex"
    and "\<forall>p\<in>set (allMessages st). \<exists>m. passes lc ps sd ed m \<and> p = project m"
  shows "\<forall>p\<in>set (allMessages (exit_state ex)). \<exists>m. passes lc ps sd ed m \<and> p = project m"
  by (rule while_loop_invariant [OF assms(1), where I = "\<lambda>s. \<forall>p\<in>set (allMessages s). \<exists>m. passes lc ps sd ed m \<and> p = project m"])
     (use assms(2) loop_body_members in blast)+

lemma respond_messages:
  assumes "respond ps sd ed ex = Inr (Text_content parts)" and "Json_messages ms \<in> set parts"
  shows "ms = allMessages (exit_state ex)"
  using assms
  by (cases ex) (auto simp: respond_def exit_state_def split: sum.splits)

lemma getMessagesAdvanced_members:
  assumes "getMessagesAdvanced e ps = Inr (Text_content parts)"
    and "Json_messages ms \<in> set parts" and "p \<in> set ms"
  shows "\<exists>m. passes (toLowerCase e) ps (parse_bound e (startDate ps)) (parse_bound e (endDate ps)) m \<and>
             p = project m"
proof -
  obtain ex where ex: "run_scan e ps = Inr ex"
    and resp: "respond ps (parse_bound e (startDate ps)) (parse_bound e (endDate ps)) ex =
                 Inr (Text_content parts)"
    using assms(1) by (auto simp: getMessagesAdvanced_def split: sum.splits)
  obtain ch where
    loop: "while_loop (toLowerCase e) ch ps (parse_bound e (startDate ps)) (parse_bound e (endDate ps))
             (targetLimit ps) (initial_state ps) = Inr ex"
    using ex by (auto simp: run_scan_def split: sum.splits)
  have "ms = allMessages (exit_state ex)" using respond_messages [OF resp assms(2)] .
  moreover have "\<forall>p\<in>set (allMessages (exit_state ex)).
      \<exists>m. passes (toLowerCase e) ps (parse_bound e (startDate ps)) (parse_bound e (endDate ps)) m \<and> p = project m"
    by (rule while_loop_members [OF loop]) (simp add: initial_state_def)
  ultimately show ?thesis using assms(3) by blast
qed


section \<open>Every returned message satisfies the filters\<close>

text \<open>
  Claim C1, as the code has it. Every message record in the response of
  \<open>getMessagesAdvanced\<close> satisfies every filter that is supplied and not empty: its
  content contains the keyword as a substring once the host's \<open>toLowerCase\<close> is applied
  to both, its author name or author id equals the author, it has at least one
  attachment when attachments are required, and its timestamp lies within the inclusive
  window of the start and end dates that parse. An empty keyword, author or date is
  taken for none, as the code tests them for truthiness.
\<close>

theorem advanced_results_satisfy_filters:
  assumes "getMessagesAdvanced e ps = Inr (Text_content parts)"
    and "Json_messages ms \<in> set parts" and "p \<in> set ms"
  shows "(\<forall>k. keyword ps = Some k \<and> k \<noteq> [] \<longrightarrow>
            (\<exists>pre post. toLowerCase e (p_content p) = pre @ toLowerCase e k @ post))
       \<and> (\<forall>a. author ps = Some a \<and> a \<noteq> [] \<longrightarrow> p_author p = a \<or> p_authorId p = a)
       \<and> (hasAttachments ps = Some True \<longrightarrow> p_attachments p \<noteq> [])
       \<and> (\<forall>s t. startDate ps = Some s \<and> s \<noteq> [] \<and> Date_parse e s = Some t \<longrightarrow> t \<le> p_timestamp p)
       \<and> (\<forall>s t. endDate ps = Some s \<and> s \<noteq> [] \<and> Date_parse e s = Some t \<longrightarrow> p_timestamp p \<le> t)"
proof -
  obtain m where m: "passes (toLowerCase e) ps (parse_bound e (startDate ps)) (parse_bound e (endDate ps)) m"
    and p: "p = project m"
    using getMessagesAdvanced_members [OF assms] by blast
  have kw: "\<not> keyword_skip (toLowerCase e) ps m" and au: "\<not> author_skip ps m" and at: "\<not> attachment_skip ps m"
    and old: "\<not> too_old (parse_bound e (startDate ps)) m"
    and new: "\<not> too_new (parse_bound e (endDate ps)) m"
    using m by (simp_all add: passes_def)
  have "\<forall>k. keyword ps = Some k \<and> k \<noteq> [] \<longrightarrow>
            (\<exists>pre post. toLowerCase e (p_content p) = pre @ toLowerCase e k @ post)"
    using kw by (fastforce simp: keyword_skip_def p project_def str_includes_iff)
  moreover have "\<forall>a. author ps = Some a \<and> a \<noteq> [] \<longrightarrow> p_author p = a \<or> p_authorId p = a"
    using au by (auto simp: author_skip_def p project_def)
  moreover have "hasAttachments ps = Some True \<longrightarrow> p_attachments p \<noteq> []"
    using at by (auto simp: attachment_skip_def p project_def)
  moreover have "\<forall>s t. startDate ps = Some s \<and> s \<noteq> [] \<and> Date_parse e s = Some t \<longrightarrow> t \<le> p_timestamp p"
    using old by (auto simp: parse_bound_def p project_def)
  moreover have "\<forall>s t. endDate ps = Some s \<and> s \<noteq> [] \<and> Date_parse e s = Some t \<longrightarrow> p_timestamp p \<le> t"
    using new by (auto simp: parse_bound_def p project_def)
  ultimately show ?thesis by blast
qed

theorem advanced_results_satisfy_filters_witness:
  "getMessagesAdvanced (test_env (serve [mixed_page])) all_filters = Inr (Text_content mixed_response)
   \<and> Json_messages mixed_matches \<in> set mixed_response
   \<and> project (mk_msg 5 ''bob'' ''alice'' ''error again'' [a_file]) \<in> set mixed_matches
   \<and> (\<exists>pre post. ascii_lower ''error again'' = pre @ ascii_lower ''ERROR'' @ post)
   \<and> p_authorId (project (mk_msg 5 ''bob'' ''alice'' ''error again'' [a_file])) = ''alice''
   \<and> p_attachments (project (mk_msg 5 ''bob'' ''alice'' ''error again'' [a_file])) \<noteq> []
   \<and> 2 \<le> p_timestamp (project (mk_msg 5 ''bob'' ''alice'' ''error again'' [a_file]))
   \<and> p_timestamp (project (mk_msg 5 ''bob'' ''alice'' ''error again'' [a_file])) \<le> 8"
proof -
  let ?p = "project (mk_msg 5 ''bob'' ''alice'' ''error again'' [a_file])"
  have run: "getMessagesAdvanced (test_env (serve [mixed_page])) all_filters =
               Inr (Text_content mixed_response)"
    by code_simp
  have part: "Json_messages mixed_matches \<in> set mixed_response"
    by (simp add: mixed_response_def)
  have mem: "?p \<in> set mixed_matches"
    by (simp add: mixed_matches_def)
  have parse: "Date_parse (test_env (serve [mixed_page])) ''@2'' = Some 2"
              "Date_parse (test_env (serve [mixed_page])) ''@8'' = Some 8"
    by code_simp+
  note inst = advanced_results_satisfy_filters [OF run part mem]
  have "\<exists>pre post. ascii_lower (p_content ?p) = pre @ ascii_lower ''ERROR'' @ post"
    using inst by (simp add: all_filters_def test_env_def)
  then have kw: "\<exists>pre post. ascii_lower ''error again'' = pre @ ascii_lower ''ERROR'' @ post"
    by (simp add: project_def mk_msg_def)
  have au: "p_author ?p = ''alice'' \<or> p_authorId ?p = ''alice''"
    using inst by (simp add: all_filters_def)
  have at: "p_attachments ?p \<noteq> []"
    using inst by (simp add: all_filters_def)
  have lo: "2 \<le> p_timestamp ?p" using inst parse(1) by (simp add: all_filters_def)
  have hi: "p_timestamp ?p \<le> 8" using inst parse(2) by (simp add: all_filters_def)
  have au': "p_authorId ?p = ''alice''" using au by (simp add: project_def mk_msg_def)
  show ?thesis using run part mem kw au' at lo hi by blast
qed

section \<open>The start date stops the scan\<close>

lemma fetchOptions_iterations [simp]:
  "fetchOptions ps (st\<lparr>iterations := n\<rparr>) = fetchOptions ps st"
  by (simp add: fetchOptions_def)

lemma for_loop_old:
  "too_old sd a \<Longrightarrow> for_loop lc ps sd ed target acc (a # ms) = For_return acc"
  by simp

lemma for_loop_skip:
  "\<not> too_old sd a \<Longrightarrow> \<not> passes lc ps sd ed a \<Longrightarrow>
   for_loop lc ps sd ed target acc (a # ms) = for_loop lc ps sd ed target acc ms"
  by (auto simp: passes_def)

lemma for_loop_push:
  "passes lc ps sd ed a \<Longrightarrow>
   for_loop lc ps sd ed target acc (a # ms) =
     (if int (length acc) + 1 \<ge> target then For_done (acc @ [project a])
      else for_loop lc ps sd ed target (acc @ [project a]) ms)"
  by (auto simp: passes_def)


lemma reaches_while_loop:
  "reaches lc ch ps sd ed target st s \<Longrightarrow>
   while_loop lc ch ps sd ed target st = while_loop lc ch ps sd ed target s"
proof (induction rule: reaches.induct)
  case start
  show ?case by simp
next
  case (round s s')
  have "while_loop lc ch ps sd ed target s = while_loop lc ch ps sd ed target s'"
    using round.hyps(2,3) by (subst while_loop_unfold) simp
  then show ?case using round.IH by simp
qed





section \<open>How a scan ends\<close>

lemma reaches_front:
  assumes "reaches lc ch ps sd ed target s1 s" and "loop_cond target st"
    and "loop_body lc ch ps sd ed target st = Inr (Body_next s1)"
  shows "reaches lc ch ps sd ed target st s"
  using assms
proof (induction rule: reaches.induct)
  case start
  show ?case by (rule reaches.round [OF reaches.start start(1) start(2)])
next
  case (round s s')
  have "reaches lc ch ps sd ed target st s" using round.IH round.prems by blast
  then show ?case using round.hyps(2,3) by (rule reaches.round)
qed

text \<open>
  Every successful run of the loop ends in one of three ways, at a state it reached: the
  loop condition fails, the body leaves the loop, or the body returns from the function.
\<close>

lemma while_loop_ends:
  assumes "while_loop lc ch ps sd ed target st = Inr ex"
  shows "\<exists>s. reaches lc ch ps sd ed target st s \<and>
           (\<not> loop_cond target s \<and> ex = Exited s \<or>
            loop_cond target s \<and>
              (\<exists>s'. loop_body lc ch ps sd ed target s = Inr (Body_break s') \<and> ex = Exited s' \<or>
                    loop_body lc ch ps sd ed target s = Inr (Body_return s') \<and> ex = Returned s'))"
  using assms
proof (induction lc ch ps sd ed target st rule: while_loop.induct)
  case (1 lc ch ps sd ed target st)
  show ?case
  proof (cases "loop_cond target st")
    case False
    then have "ex = Exited st" using "1.prems" by (simp add: while_loop_unfold)
    then show ?thesis using False reaches.start by blast
  next
    case True
    then obtain bx where bx: "loop_body lc ch ps sd ed target st = Inr bx"
      using "1.prems" by (cases "loop_body lc ch ps sd ed target st") (auto simp: while_loop_unfold)
    show ?thesis
    proof (cases bx)
      case (Body_return s')
      then have "ex = Returned s'" using "1.prems" True bx by (simp add: while_loop_unfold)
      then show ?thesis using True bx Body_return reaches.start by blast
    next
      case (Body_break s')
      then have "ex = Exited s'" using "1.prems" True bx by (simp add: while_loop_unfold)
      then show ?thesis using True bx Body_break reaches.start by blast
    next
      case (Body_next s1)
      then have run': "while_loop lc ch ps sd ed target s1 = Inr ex"
        using "1.prems" True bx by (simp add: while_loop_unfold)
      have c: "int (length (allMessages st)) < target \<and> iterations st < maxIterations"
        using True by (simp add: loop_cond_def)
      from "1.IH" [OF c bx Body_next run'] obtain s where
        r: "reaches lc ch ps sd ed target s1 s" and
        e: "\<not> loop_cond target s \<and> ex = Exited s \<or>
            loop_cond target s \<and>
              (\<exists>s'. loop_body lc ch ps sd ed target s = Inr (Body_break s') \<and> ex = Exited s' \<or>
                    loop_body lc ch ps sd ed target s = Inr (Body_return s') \<and> ex = Returned s')"
        by blast
      have "reaches lc ch ps sd ed target st s"
        using reaches_front [OF r True] bx Body_next by simp
      then show ?thesis using e by blast
    qed
  qed
qed

lemma reaches_next_invariant:
  assumes "reaches lc ch ps sd ed target st s" and "I st"
    and "\<And>s s'. I s \<Longrightarrow> loop_cond target s \<Longrightarrow>
           loop_body lc ch ps sd ed target s = Inr (Body_next s') \<Longrightarrow> I s'"
  shows "I s"
  using assms
proof (induction rule: reaches.induct)
  case start
  then show ?case by simp
next
  case (round s s')
  have "I s" using round.IH round.prems by blast
  from round.prems(2) [OF this round.hyps(2,3)] show ?case .
qed

text \<open>What one pass through the loop body does, case by case.\<close>

lemma loop_body_cases:
  assumes "loop_body lc ch ps sd ed target st = Inr bx"
  obtains
    (no_batch) r where "messages_fetch ch (length (calls st)) (fetchOptions ps st) = Inr r"
      "messages_of r = []"
      "bx = Body_break (st\<lparr>iterations := iterations st + 1,
                            calls := calls st @ [fetchOptions ps st]\<rparr>)"
  | (stopped) r acc where "messages_fetch ch (length (calls st)) (fetchOptions ps st) = Inr r"
      "messages_of r \<noteq> []"
      "for_loop lc ps sd ed target (allMessages st) (sort_newest_first (messages_of r)) =
         For_return acc"
      "bx = Body_return (st\<lparr>iterations := iterations st + 1,
                             calls := calls st @ [fetchOptions ps st], allMessages := acc\<rparr>)"
  | (finished) r acc where "messages_fetch ch (length (calls st)) (fetchOptions ps st) = Inr r"
      "messages_of r \<noteq> []"
      "for_loop lc ps sd ed target (allMessages st) (sort_newest_first (messages_of r)) =
         For_done acc"
      "bx = (if length (messages_of r) < 100 then Body_break else Body_next)
             (st\<lparr>iterations := iterations st + 1,
                 calls := calls st @ [fetchOptions ps st], allMessages := acc,
                 lastMessageId := Some (msg_id (last (sort_newest_first (messages_of r)))),
                 totalFetched := totalFetched st + length (messages_of r)\<rparr>)"
proof -
  obtain r where r: "messages_fetch ch (length (calls st)) (fetchOptions ps st) = Inr r"
    using assms
    by (cases "messages_fetch ch (length (calls st)) (fetchOptions ps st)")
       (auto simp: loop_body_def Let_def)
  show thesis
  proof (cases "messages_of r = []")
    case True
    then show thesis using assms r no_batch by (simp add: loop_body_def Let_def)
  next
    case False
    then have ne: "sort_newest_first (messages_of r) \<noteq> []"
      by (metis length_sort_newest_first length_0_conv)
    show thesis
    proof (cases "for_loop lc ps sd ed target (allMessages st) (sort_newest_first (messages_of r))")
      case (For_return acc)
      then show thesis using assms r False stopped [OF r False For_return]
        by (simp add: loop_body_def Let_def)
    next
      case (For_done acc)
      then show thesis using assms r False ne finished [OF r False For_done]
        by (simp add: loop_body_def Let_def split: if_splits)
    qed
  qed
qed

section \<open>Where returned messages come from\<close>

lemma for_loop_return_old:
  "for_loop lc ps sd ed target acc ms = For_return acc' \<Longrightarrow> \<exists>m\<in>set ms. too_old sd m"
  by (induction ms arbitrary: acc) (auto split: if_splits)

lemma too_old_parsed: "too_old sd m \<Longrightarrow> \<exists>t. sd = Some (Some t) \<and> createdTimestamp m < t"
  by (cases sd; cases "the sd") auto

lemma loop_body_origin:
  assumes "loop_body lc ch ps sd ed target st = Inr bx"
    and "p \<in> set (allMessages (body_state bx))"
  shows "p \<in> set (allMessages st) \<or>
         (\<exists>i opts r m. messages_fetch ch i opts = Inr r \<and> m \<in> set (messages_of r) \<and>
                       passes lc ps sd ed m \<and> p = project m)"
  using assms(1)
proof (cases rule: loop_body_cases)
  case (no_batch r)
  then show ?thesis using assms(2) by (simp add: body_state_def)
next
  case (stopped r acc)
  then have "p \<in> set (exit_messages (for_loop lc ps sd ed target (allMessages st)
                                        (sort_newest_first (messages_of r))))"
    using assms(2) by (simp add: body_state_def exit_messages_def)
  from for_loop_members [OF this] show ?thesis using stopped(1) by auto
next
  case (finished r acc)
  then have "p \<in> set (exit_messages (for_loop lc ps sd ed target (allMessages st)
                                        (sort_newest_first (messages_of r))))"
    using assms(2) by (simp add: body_state_def exit_messages_def split: if_splits)
  from for_loop_members [OF this] show ?thesis using finished(1) by auto
qed

lemma while_loop_origin:
  assumes "while_loop lc ch ps sd ed target st = Inr ex" and "allMessages st = []"
    and "p \<in> set (allMessages (exit_state ex))"
  shows "\<exists>i opts r m. messages_fetch ch i opts = Inr r \<and> m \<in> set (messages_of r) \<and>
                      passes lc ps sd ed m \<and> p = project m"
proof -
  let ?I = "\<lambda>s. \<forall>p\<in>set (allMessages s).
          \<exists>i opts r m. messages_fetch ch i opts = Inr r \<and> m \<in> set (messages_of r) \<and>
                        passes lc ps sd ed m \<and> p = project m"
  have "?I (exit_state ex)"
  proof (rule while_loop_invariant [OF assms(1), where I = ?I])
    show "?I st" using assms(2) by simp
  next
    fix s bx
    assume I: "?I s" and b: "loop_body lc ch ps sd ed target s = Inr bx"
    show "?I (body_state bx)"
    proof
      fix q assume "q \<in> set (allMessages (body_state bx))"
      from loop_body_origin [OF b this] show
        "\<exists>i opts r m. messages_fetch ch i opts = Inr r \<and> m \<in> set (messages_of r) \<and>
                        passes lc ps sd ed m \<and> q = project m"
        using I by blast
    qed
  qed
  then show ?thesis using assms(3) by blast
qed

lemma while_loop_calls:
  assumes "while_loop lc ch ps sd ed target st = Inr ex"
    and "length (calls st) = iterations st" and "iterations st \<le> maxIterations"
  shows "length (calls (exit_state ex)) = iterations (exit_state ex) \<and>
         iterations (exit_state ex) \<le> maxIterations"
proof (rule while_loop_invariant [OF assms(1), where I = "\<lambda>s. length (calls s) = iterations s \<and>
         iterations s \<le> maxIterations"])
  show "length (calls st) = iterations st \<and> iterations st \<le> maxIterations"
    using assms(2,3) by simp
next
  fix s bx
  assume I: "length (calls s) = iterations s \<and> iterations s \<le> maxIterations"
    and c: "loop_cond target s" and b: "loop_body lc ch ps sd ed target s = Inr bx"
  have lt: "iterations s < maxIterations" using c by (simp add: loop_cond_def)
  from b show "length (calls (body_state bx)) = iterations (body_state bx) \<and>
               iterations (body_state bx) \<le> maxIterations"
    by (cases rule: loop_body_cases) (use I lt in \<open>auto simp: body_state_def\<close>)
qed

lemma while_loop_Returned:
  assumes "while_loop lc ch ps sd ed target st = Inr (Returned st')"
  shows "\<exists>t. sd = Some (Some t)"
proof -
  from while_loop_ends [OF assms] obtain s where
    b: "loop_body lc ch ps sd ed target s = Inr (Body_return st')" by auto
  from b obtain ms acc where "for_loop lc ps sd ed target (allMessages s) ms = For_return acc"
    by (cases rule: loop_body_cases) (auto split: if_splits)
  then show ?thesis using for_loop_return_old too_old_parsed by blast
qed

section \<open>The layout of a successful response\<close>

lemma run_scan_loop:
  assumes "run_scan e ps = Inr ex"
  obtains ch where "open_channel e (channelId ps) = Inr ch"
    "while_loop (toLowerCase e) ch ps (parse_bound e (startDate ps)) (parse_bound e (endDate ps))
       (targetLimit ps) (initial_state ps) = Inr ex"
  using assms by (auto simp: run_scan_def split: sum.splits)

lemma open_channel_fetched:
  "open_channel e cid = Inr ch \<Longrightarrow> channels_fetch e cid = Inr (Some ch)"
  by (auto simp: open_channel_def split: sum.splits option.splits if_splits)

text \<open>
  Claim C8, as the code has it. A successful response of \<open>getMessagesAdvanced\<close> is one
  text of one of two layouts. When the loop is left normally: the heading, the summary
  (whose \<open>total\<close> is the number of messages) and the array of messages. When the scan
  returns on the start date, which takes a start date that parsed: a count line and the
  array of messages, without a summary.
\<close>

theorem advanced_response_layout:
  assumes "getMessagesAdvanced e ps = Inr res"
  shows "(\<exists>st s. run_scan e ps = Inr (Exited st) \<and> total s = length (allMessages st) \<and>
            pg_totalFetched s = totalFetched st \<and>
            res = Text_content
                    [Lit ''Advanced search results:\<newline>\<newline>Summary: '', Json_summary s,
                     Lit ''\<newline>\<newline>Messages:\<newline>'', Json_messages (allMessages st)])
       \<or> (\<exists>st t. run_scan e ps = Inr (Returned st) \<and>
            parse_bound e (startDate ps) = Some (Some t) \<and>
            res = Text_content
                    [Lit ''Retrieved '', Num (length (allMessages st)),
                     Lit '' messages matching criteria:\<newline>\<newline>'',
                     Json_messages (allMessages st)])"
proof -
  obtain ex where ex: "run_scan e ps = Inr ex"
    and resp: "respond ps (parse_bound e (startDate ps)) (parse_bound e (endDate ps)) ex = Inr res"
    using assms by (auto simp: getMessagesAdvanced_def split: sum.splits)
  show ?thesis
  proof (cases ex)
    case (Exited st)
    then obtain s where
      s: "make_summary ps (parse_bound e (startDate ps)) (parse_bound e (endDate ps)) st = Inr s"
      and res: "res = Text_content
                    [Lit ''Advanced search results:\<newline>\<newline>Summary: '', Json_summary s,
                     Lit ''\<newline>\<newline>Messages:\<newline>'', Json_messages (allMessages st)]"
      using resp by (auto simp: respond_def split: sum.splits)
    have "total s = length (allMessages st) \<and> pg_totalFetched s = totalFetched st"
      using s by (auto simp: make_summary_def split: sum.splits)
    then show ?thesis using ex Exited res by blast
  next
    case (Returned st)
    then have res: "res = Text_content
                    [Lit ''Retrieved '', Num (length (allMessages st)),
                     Lit '' messages matching criteria:\<newline>\<newline>'',
                     Json_messages (allMessages st)]"
      using resp by (simp add: respond_def)
    obtain ch where "while_loop (toLowerCase e) ch ps (parse_bound e (startDate ps))
        (parse_bound e (endDate ps)) (targetLimit ps) (initial_state ps) = Inr (Returned st)"
      using ex Returned by (auto elim: run_scan_loop)
    then obtain t where "parse_bound e (startDate ps) = Some (Some t)"
      using while_loop_Returned by blast
    then show ?thesis using ex Returned res by blast
  qed
qed

theorem advanced_response_layout_witness:
  "getMessagesAdvanced (test_env (serve [mixed_page])) all_filters =
     Inr (Text_content mixed_response)
   \<and> ((\<exists>st s. run_scan (test_env (serve [mixed_page])) all_filters = Inr (Exited st) \<and>
            total s = length (allMessages st) \<and> pg_totalFetched s = totalFetched st \<and>
            Text_content mixed_response = Text_content
                    [Lit ''Advanced search results:\<newline>\<newline>Summary: '', Json_summary s,
                     Lit ''\<newline>\<newline>Messages:\<newline>'', Json_messages (allMessages st)])
       \<or> (\<exists>st t. run_scan (test_env (serve [mixed_page])) all_filters = Inr (Returned st) \<and>
            parse_bound (test_env (serve [mixed_page])) (startDate all_filters) = Some (Some t) \<and>
            Text_content mixed_response = Text_content
                    [Lit ''Retrieved '', Num (length (allMessages st)),
                     Lit '' messages matching criteria:\<newline>\<newline>'',
                     Json_messages (allMessages st)]))"
proof -
  have run: "getMessagesAdvanced (test_env (serve [mixed_page])) all_filters =
               Inr (Text_content mixed_response)"
    by code_simp
  from advanced_response_layout [OF run] show ?thesis using run by blast
qed

text \<open>
  Claim C8, as it is stated, fails on the start-date return: the response there has a
  count line and the array of messages, and no summary.
\<close>

theorem short_circuit_layout_counterexample:
  "getMessagesAdvanced (test_env (serve [cut_page])) since_three =
     Inr (Text_content
            [Lit ''Retrieved '', Num 2, Lit '' messages matching criteria:\<newline>\<newline>'',
             Json_messages [project (nth_msg 5), project (nth_msg 4)]])
   \<and> \<not> count_summary_messages
          [Lit ''Retrieved '', Num 2, Lit '' messages matching criteria:\<newline>\<newline>'',
           Json_messages [project (nth_msg 5), project (nth_msg 4)]]"
proof -
  have "getMessagesAdvanced (test_env (serve [cut_page])) since_three =
     Inr (Text_content
            [Lit ''Retrieved '', Num 2, Lit '' messages matching criteria:\<newline>\<newline>'',
             Json_messages [project (nth_msg 5), project (nth_msg 4)]])"
    by code_simp
  moreover have "\<not> count_summary_messages
          [Lit ''Retrieved '', Num 2, Lit '' messages matching criteria:\<newline>\<newline>'',
           Json_messages [project (nth_msg 5), project (nth_msg 4)]]"
    by (simp add: count_summary_messages_def)
  ultimately show ?thesis by blast
qed

section \<open>The iteration budget\<close>

lemma initial_state_simps [simp]:
  "allMessages (initial_state ps) = []" "calls (initial_state ps) = []"
  "iterations (initial_state ps) = 0" "totalFetched (initial_state ps) = 0"
  "lastMessageId (initial_state ps) = before ps"
  by (simp_all add: initial_state_def)

text \<open>
  Claim C5, as the code has it. When the filters of a query match no message of the
  channel and the scan succeeds, it has issued at most \<open>maxIterations\<close> fetches, which is
  ten, and it returns no message. Left normally, with dates that the summary can render,
  the response carries the summary with a total of zero; ended on the start date, it is
  the count line with zero and the empty array.
\<close>

theorem iteration_budget:
  assumes run: "run_scan e ps = Inr ex" and nomatch: "nothing_passes e ps"
  shows "length (calls (exit_state ex)) \<le> maxIterations \<and> maxIterations = 10
       \<and> allMessages (exit_state ex) = []
       \<and> (\<forall>st r. ex = Exited st \<and>
             dateRange (parse_bound e (startDate ps)) (parse_bound e (endDate ps)) = Inr r \<longrightarrow>
             getMessagesAdvanced e ps =
               Inr (Text_content
                      [Lit ''Advanced search results:\<newline>\<newline>Summary: '',
                       Json_summary
                         \<lparr>total = 0, f_dateRange = r,
                          f_keyword = or_else (keyword ps) ''none'',
                          f_author = or_else (author ps) ''any'',
                          f_hasAttachments = (hasAttachments ps = Some True),
                          pg_before = or_else (before ps) ''none'',
                          pg_after = or_else (after ps) ''none'',
                          pg_totalFetched = totalFetched st\<rparr>,
                       Lit ''\<newline>\<newline>Messages:\<newline>'', Json_messages []]))
       \<and> (\<forall>st. ex = Returned st \<longrightarrow>
             getMessagesAdvanced e ps =
               Inr (Text_content
                      [Lit ''Retrieved '', Num 0,
                       Lit '' messages matching criteria:\<newline>\<newline>'', Json_messages []]))"
proof -
  let ?sd = "parse_bound e (startDate ps)" and ?ed = "parse_bound e (endDate ps)"
  obtain ch where ch: "open_channel e (channelId ps) = Inr ch"
    and loop: "while_loop (toLowerCase e) ch ps ?sd ?ed (targetLimit ps) (initial_state ps) = Inr ex"
    using run by (rule run_scan_loop)
  have budget: "length (calls (exit_state ex)) \<le> maxIterations"
    using while_loop_calls [OF loop] by simp
  have empty: "allMessages (exit_state ex) = []"
  proof (rule ccontr)
    assume "allMessages (exit_state ex) \<noteq> []"
    then obtain p where "p \<in> set (allMessages (exit_state ex))"
      by (cases "allMessages (exit_state ex)") auto
    from while_loop_origin [OF loop _ this] obtain i opts r m where
      "messages_fetch ch i opts = Inr r" "m \<in> set (messages_of r)" "passes (toLowerCase e) ps ?sd ?ed m"
      by auto
    then show False
      using nomatch open_channel_fetched [OF ch] unfolding nothing_passes_def by blast
  qed
  have normal: "getMessagesAdvanced e ps =
               Inr (Text_content
                      [Lit ''Advanced search results:\<newline>\<newline>Summary: '',
                       Json_summary
                         \<lparr>total = 0, f_dateRange = r,
                          f_keyword = or_else (keyword ps) ''none'',
                          f_author = or_else (author ps) ''any'',
                          f_hasAttachments = (hasAttachments ps = Some True),
                          pg_before = or_else (before ps) ''none'',
                          pg_after = or_else (after ps) ''none'',
                          pg_totalFetched = totalFetched st\<rparr>,
                       Lit ''\<newline>\<newline>Messages:\<newline>'', Json_messages []])"
    if "ex = Exited st" "dateRange ?sd ?ed = Inr r" for st r
    using that run empty
    by (simp add: getMessagesAdvanced_def respond_def make_summary_def exit_state_def)
  have short: "getMessagesAdvanced e ps =
               Inr (Text_content
                      [Lit ''Retrieved '', Num 0,
                       Lit '' messages matching criteria:\<newline>\<newline>'', Json_messages []])"
    if "ex = Returned st" for st
    using that run empty
    by (simp add: getMessagesAdvanced_def respond_def exit_state_def)
  show ?thesis using budget empty normal short by (simp add: maxIterations_def)
qed

lemma serve_one_page:
  "messages_fetch (test_channel (serve [pg])) i opts = Inr r \<Longrightarrow> m \<in> set (messages_of r) \<Longrightarrow>
   m \<in> set pg"
  by (auto simp: test_channel_def serve_def split: if_splits)

lemma test_env_channel:
  "channels_fetch (test_env f) cid = Inr (Some ch) \<Longrightarrow> ch = test_channel f"
  by (simp add: test_env_def)

theorem iteration_budget_witness:
  "run_scan (test_env (serve [cut_page])) no_match =
     Inr (Exited \<lparr>allMessages = [], lastMessageId = Some ''001'', totalFetched = 4,
                  iterations = 1,
                  calls = [\<lparr>fo_limit = 100, fo_before = None, fo_after = None\<rparr>]\<rparr>)
   \<and> nothing_passes (test_env (serve [cut_page])) no_match
   \<and> getMessagesAdvanced (test_env (serve [cut_page])) no_match =
       Inr (Text_content
              [Lit ''Advanced search results:\<newline>\<newline>Summary: '',
               Json_summary
                 \<lparr>total = 0, f_dateRange = Range_none, f_keyword = ''zzz'', f_author = ''any'',
                  f_hasAttachments = False, pg_before = ''none'', pg_after = ''none'',
                  pg_totalFetched = 4\<rparr>,
               Lit ''\<newline>\<newline>Messages:\<newline>'', Json_messages []])"
proof -
  let ?e = "test_env (serve [cut_page])"
  let ?st = "\<lparr>allMessages = [], lastMessageId = Some ''001'', totalFetched = 4,
              iterations = 1,
              calls = [\<lparr>fo_limit = 100, fo_before = None, fo_after = None\<rparr>]\<rparr>"
  have run: "run_scan ?e no_match = Inr (Exited ?st)"
    by code_simp
  have skip: "\<forall>m\<in>set cut_page. keyword_skip ascii_lower no_match m"
    by code_simp
  have nomatch: "nothing_passes ?e no_match"
    unfolding nothing_passes_def
  proof (intro allI impI)
    fix ch i opts r m
    assume "channels_fetch ?e (channelId no_match) = Inr (Some ch)"
      and "messages_fetch ch i opts = Inr r" and "m \<in> set (messages_of r)"
    then have "m \<in> set cut_page"
      using test_env_channel serve_one_page by blast
    then show "\<not> passes (toLowerCase ?e) no_match (parse_bound ?e (startDate no_match))
                  (parse_bound ?e (endDate no_match)) m"
      using skip by (simp add: passes_def test_env_def)
  qed
  have range: "dateRange (parse_bound ?e (startDate no_match)) (parse_bound ?e (endDate no_match)) =
                 Inr Range_none"
    by code_simp
  have "getMessagesAdvanced ?e no_match =
       Inr (Text_content
              [Lit ''Advanced search results:\<newline>\<newline>Summary: '',
               Json_summary
                 \<lparr>total = 0, f_dateRange = Range_none,
                  f_keyword = or_else (keyword no_match) ''none'',
                  f_author = or_else (author no_match) ''any'',
                  f_hasAttachments = (hasAttachments no_match = Some True),
                  pg_before = or_else (before no_match) ''none'',
                  pg_after = or_else (after no_match) ''none'',
                  pg_totalFetched = totalFetched ?st\<rparr>,
               Lit ''\<newline>\<newline>Messages:\<newline>'', Json_messages []])"
    using iteration_budget [OF run nomatch] range by blast
  then show ?thesis using run nomatch by (simp add: no_match_def no_filters_def)
qed

text \<open>
  Claim C5, as it is stated, fails when it is the start date that matches nothing: the
  scan returns on the first message, and the response has no summary.
\<close>

theorem no_match_without_summary_counterexample:
  "nothing_passes (test_env (serve [cut_page])) future_start
   \<and> getMessagesAdvanced (test_env (serve [cut_page])) future_start =
       Inr (Text_content
              [Lit ''Retrieved '', Num 0, Lit '' messages matching criteria:\<newline>\<newline>'',
               Json_messages []])
   \<and> \<not> list_ex is_summary
          [Lit ''Retrieved '', Num 0, Lit '' messages matching criteria:\<newline>\<newline>'',
           Json_messages []]"
proof -
  let ?e = "test_env (serve [cut_page])"
  have old: "\<forall>m\<in>set cut_page. too_old (parse_bound ?e (startDate future_start)) m"
    by code_simp
  have nomatch: "nothing_passes ?e future_start"
    unfolding nothing_passes_def
  proof (intro allI impI)
    fix ch i opts r m
    assume "channels_fetch ?e (channelId future_start) = Inr (Some ch)"
      and "messages_fetch ch i opts = Inr r" and "m \<in> set (messages_of r)"
    then have "m \<in> set cut_page"
      using test_env_channel serve_one_page by blast
    then show "\<not> passes (toLowerCase ?e) future_start
                  (parse_bound ?e (startDate future_start))
                  (parse_bound ?e (endDate future_start)) m"
      using old by (simp add: passes_def)
  qed
  have "getMessagesAdvanced ?e future_start =
       Inr (Text_content
              [Lit ''Retrieved '', Num 0, Lit '' messages matching criteria:\<newline>\<newline>'',
               Json_messages []])"
    by code_simp
  then show ?thesis using nomatch by simp
qed

section \<open>Dates that do not parse\<close>

lemma for_loop_invalid_start:
  "for_loop lc ps (Some None) ed target acc ms = for_loop lc ps None ed target acc ms"
  by (induction ms arbitrary: acc) (simp_all add: keyword_skip_def author_skip_def attachment_skip_def)

lemma for_loop_invalid_end:
  "for_loop lc ps sd (Some None) target acc ms = for_loop lc ps sd None target acc ms"
  by (induction ms arbitrary: acc) (simp_all add: keyword_skip_def author_skip_def attachment_skip_def)

lemma for_loop_startDate_update:
  "for_loop lc (ps\<lparr>startDate := x\<rparr>) sd ed target acc ms = for_loop lc ps sd ed target acc ms"
  by (induction ms arbitrary: acc) (simp_all add: keyword_skip_def author_skip_def attachment_skip_def)

lemma for_loop_endDate_update:
  "for_loop lc (ps\<lparr>endDate := x\<rparr>) sd ed target acc ms = for_loop lc ps sd ed target acc ms"
  by (induction ms arbitrary: acc) (simp_all add: keyword_skip_def author_skip_def attachment_skip_def)

lemma fetchOptions_date_update [simp]:
  "fetchOptions (ps\<lparr>startDate := x\<rparr>) st = fetchOptions ps st"
  "fetchOptions (ps\<lparr>endDate := x\<rparr>) st = fetchOptions ps st"
  by (simp_all add: fetchOptions_def)

lemma loop_body_invalid_start:
  "loop_body lc ch ps (Some None) ed target st = loop_body lc ch (ps\<lparr>startDate := None\<rparr>) None ed target st"
  by (simp add: loop_body_def Let_def for_loop_invalid_start for_loop_startDate_update
           cong: sum.case_cong if_cong)

lemma loop_body_invalid_end:
  "loop_body lc ch ps sd (Some None) target st = loop_body lc ch (ps\<lparr>endDate := None\<rparr>) sd None target st"
  by (simp add: loop_body_def Let_def for_loop_invalid_end for_loop_endDate_update
           cong: sum.case_cong if_cong)

text \<open>Two loops whose bodies agree on every state agree.\<close>

lemma while_loop_cong:
  assumes "\<And>s. loop_body lc ch ps sd ed target s = loop_body lc ch' ps' sd' ed' target s"
  shows "while_loop lc ch ps sd ed target st = while_loop lc ch' ps' sd' ed' target st"
proof (induction "maxIterations - iterations st" arbitrary: st rule: less_induct)
  case less
  show ?case
  proof (cases "loop_cond target st")
    case False
    then show ?thesis by (simp add: while_loop_unfold)
  next
    case True
    show ?thesis
    proof (cases "loop_body lc ch ps sd ed target st")
      case (Inl x)
      then show ?thesis using True assms [of st] by (simp add: while_loop_unfold)
    next
      case (Inr bx)
      show ?thesis
      proof (cases bx)
        case (Body_next s')
        have "iterations s' = Suc (iterations st)"
          using Inr Body_next by (cases rule: loop_body_cases) (auto split: if_splits)
        moreover have "iterations st < maxIterations" using True by (simp add: loop_cond_def)
        ultimately have "maxIterations - iterations s' < maxIterations - iterations st" by simp
        from less [OF this] show ?thesis
          using True Inr Body_next assms [of st] by (simp add: while_loop_unfold)
      qed (use True Inr assms [of st] in \<open>simp_all add: while_loop_unfold\<close>)
    qed
  qed
qed

lemma parse_bound_unparseable: "unparseable e d \<Longrightarrow> parse_bound e d = Some None"
  by (simp add: unparseable_def parse_bound_def)

lemma run_scan_bad_start:
  assumes "unparseable e (startDate ps)"
  shows "run_scan e ps = run_scan e (ps\<lparr>startDate := None\<rparr>)"
proof -
  have "while_loop lc ch ps (Some None) ed target st =
        while_loop lc ch (ps\<lparr>startDate := None\<rparr>) None ed target st" for lc ch ed target st
    by (rule while_loop_cong) (rule loop_body_invalid_start)
  moreover have "parse_bound e (startDate ps) = Some None"
    by (rule parse_bound_unparseable [OF assms])
  moreover have "parse_bound e (startDate (ps\<lparr>startDate := None\<rparr>)) = None"
    by (simp add: parse_bound_def)
  ultimately show ?thesis
    by (simp add: run_scan_def targetLimit_def initial_state_def cong: sum.case_cong)
qed

lemma run_scan_bad_end:
  assumes "unparseable e (endDate ps)"
  shows "run_scan e ps = run_scan e (ps\<lparr>endDate := None\<rparr>)"
proof -
  have "while_loop lc ch ps sd (Some None) target st =
        while_loop lc ch (ps\<lparr>endDate := None\<rparr>) sd None target st" for lc ch sd target st
    by (rule while_loop_cong) (rule loop_body_invalid_end)
  moreover have "parse_bound e (endDate ps) = Some None"
    by (rule parse_bound_unparseable [OF assms])
  moreover have "parse_bound e (endDate (ps\<lparr>endDate := None\<rparr>)) = None"
    by (simp add: parse_bound_def)
  ultimately show ?thesis
    by (simp add: run_scan_def targetLimit_def initial_state_def cong: sum.case_cong)
qed

lemma run_scan_Returned:
  assumes "run_scan e ps = Inr (Returned st)"
  shows "\<exists>t. parse_bound e (startDate ps) = Some (Some t)"
  using assms while_loop_Returned by (auto elim!: run_scan_loop)

text \<open>
  A start or end date that was supplied and does not parse changes nothing in the scan:
  it runs as for the query without that date, with the same fetches and the same
  accumulated messages, and a scan that returns on a (parsed) start date answers as the
  query without the unparseable end date does. But when the loop is left normally the
  summary renders the date, and that throws.
\<close>

lemma unparseable_date:
  "(unparseable e (startDate ps) \<longrightarrow>
      run_scan e ps = run_scan e (ps\<lparr>startDate := None\<rparr>) \<and>
      (\<forall>ex. run_scan e ps = Inr ex \<longrightarrow>
         getMessagesAdvanced e ps = Inl (ErrorObj ''RangeError'' ''Invalid time value'')))
   \<and> (unparseable e (endDate ps) \<longrightarrow>
      run_scan e ps = run_scan e (ps\<lparr>endDate := None\<rparr>) \<and>
      (\<forall>st. run_scan e ps = Inr (Exited st) \<longrightarrow>
         getMessagesAdvanced e ps = Inl (ErrorObj ''RangeError'' ''Invalid time value'')) \<and>
      (\<forall>st. run_scan e ps = Inr (Returned st) \<longrightarrow>
         getMessagesAdvanced e ps = getMessagesAdvanced e (ps\<lparr>endDate := None\<rparr>)))"
proof (intro conjI impI allI)
  assume bad: "unparseable e (startDate ps)"
  show "run_scan e ps = run_scan e (ps\<lparr>startDate := None\<rparr>)"
    by (rule run_scan_bad_start [OF bad])
  fix ex assume run: "run_scan e ps = Inr ex"
  have sd: "parse_bound e (startDate ps) = Some None" by (rule parse_bound_unparseable [OF bad])
  have "\<exists>st. ex = Exited st"
    using run run_scan_Returned [of e ps] sd by (cases ex) auto
  then show "getMessagesAdvanced e ps = Inl (ErrorObj ''RangeError'' ''Invalid time value'')"
    using run sd by (auto simp: getMessagesAdvanced_def respond_def make_summary_def dateRange_def)
next
  assume bad: "unparseable e (endDate ps)"
  show "run_scan e ps = run_scan e (ps\<lparr>endDate := None\<rparr>)"
    by (rule run_scan_bad_end [OF bad])
  have ed: "parse_bound e (endDate ps) = Some None" by (rule parse_bound_unparseable [OF bad])
  {
    fix st assume "run_scan e ps = Inr (Exited st)"
    then show "getMessagesAdvanced e ps = Inl (ErrorObj ''RangeError'' ''Invalid time value'')"
      using ed by (auto simp: getMessagesAdvanced_def respond_def make_summary_def dateRange_def)
  next
    fix st assume run: "run_scan e ps = Inr (Returned st)"
    then have "run_scan e (ps\<lparr>endDate := None\<rparr>) = Inr (Returned st)"
      using run_scan_bad_end [OF bad] by simp
    then show "getMessagesAdvanced e ps = getMessagesAdvanced e (ps\<lparr>endDate := None\<rparr>)"
      using run by (simp add: getMessagesAdvanced_def respond_def)
  }
qed

lemma unparseable_date_example:
  "unparseable (test_env (serve [cut_page])) (startDate bad_start)
   \<and> run_scan (test_env (serve [cut_page])) bad_start =
       run_scan (test_env (serve [cut_page])) (bad_start\<lparr>startDate := None\<rparr>)
   \<and> getMessagesAdvanced (test_env (serve [cut_page])) bad_start =
       Inl (ErrorObj ''RangeError'' ''Invalid time value'')
   \<and> unparseable (test_env (serve [cut_page])) (endDate late_end)
   \<and> run_scan (test_env (serve [cut_page])) late_end =
       Inr (Returned \<lparr>allMessages = [project (nth_msg 5), project (nth_msg 4)],
                      lastMessageId = None, totalFetched = 0, iterations = 1,
                      calls = [\<lparr>fo_limit = 100, fo_before = None, fo_after = None\<rparr>]\<rparr>)
   \<and> getMessagesAdvanced (test_env (serve [cut_page])) late_end =
       getMessagesAdvanced (test_env (serve [cut_page])) (late_end\<lparr>endDate := None\<rparr>)"
proof -
  let ?e = "test_env (serve [cut_page])"
  have bad1: "unparseable ?e (startDate bad_start)" by code_simp
  have bad2: "unparseable ?e (endDate late_end)" by code_simp
  have run1: "run_scan ?e bad_start =
                Inr (Exited \<lparr>allMessages = map project cut_page, lastMessageId = Some ''001'',
                             totalFetched = 4, iterations = 1,
                             calls = [\<lparr>fo_limit = 100, fo_before = None, fo_after = None\<rparr>]\<rparr>)"
    by code_simp
  have run2: "run_scan ?e late_end =
       Inr (Returned \<lparr>allMessages = [project (nth_msg 5), project (nth_msg 4)],
                      lastMessageId = None, totalFetched = 0, iterations = 1,
                      calls = [\<lparr>fo_limit = 100, fo_before = None, fo_after = None\<rparr>]\<rparr>)"
    by code_simp
  have "run_scan ?e bad_start = run_scan ?e (bad_start\<lparr>startDate := None\<rparr>)"
    and "getMessagesAdvanced ?e bad_start = Inl (ErrorObj ''RangeError'' ''Invalid time value'')"
    using unparseable_date [of ?e bad_start] bad1 run1 by blast+
  moreover have "getMessagesAdvanced ?e late_end =
                 getMessagesAdvanced ?e (late_end\<lparr>endDate := None\<rparr>)"
    using unparseable_date [of ?e late_end] bad2 run2 by blast
  ultimately show ?thesis using bad1 bad2 run2 by blast
qed

text \<open>
  Claim C7: the code fails it. With a start date that does not parse the invocation
  answers with the error text of the \<open>RangeError\<close> that the summary throws, after the
  whole scan, where the claim has the answer of the same query without the date, which
  is the messages.
\<close>

theorem unparseable_start_fails:
  "unparseable (test_env (serve [cut_page])) (Some ''yesterday'')
   \<and> CallTool (test_env (serve [cut_page]))
       \<lparr>tool_name = ''discord_get_messages_advanced'',
        arguments = Some (no_args\<lparr>arg_start_date := Some ''yesterday''\<rparr>)\<rparr> =
       Text_content [Lit ''Error: Invalid time value'']
   \<and> CallTool (test_env (serve [cut_page]))
       \<lparr>tool_name = ''discord_get_messages_advanced'', arguments = Some no_args\<rparr> =
       Text_content cut_response"
proof -
  have "unparseable (test_env (serve [cut_page])) (Some ''yesterday'')"
    by code_simp
  moreover have "CallTool (test_env (serve [cut_page]))
       \<lparr>tool_name = ''discord_get_messages_advanced'',
        arguments = Some (no_args\<lparr>arg_start_date := Some ''yesterday''\<rparr>)\<rparr> =
       Text_content [Lit ''Error: Invalid time value'']"
    by code_simp
  moreover have "CallTool (test_env (serve [cut_page]))
       \<lparr>tool_name = ''discord_get_messages_advanced'', arguments = Some no_args\<rparr> =
       Text_content cut_response"
    by code_simp
  ultimately show ?thesis by blast
qed

section \<open>The end date skips and does not stop\<close>


section \<open>The dispatcher\<close>

text \<open>
  Claim C10. A call of the advanced tool with a limit of \<open>0\<close> is the call with the
  default of \<open>50\<close>: the dispatcher replaces the falsy limit before the scan starts, so the
  invocation is the one with limit \<open>50\<close> and the one without a limit, not a scan for zero
  messages and not a validation error.
\<close>

theorem zero_limit_is_default:
  "try_block e \<lparr>tool_name = ''discord_get_messages_advanced'',
                arguments = Some (a\<lparr>arg_limit := Some 0\<rparr>)\<rparr> =
     getMessagesAdvanced e
       \<lparr>channelId = arg_channel_id a, limit = Some 50, before = arg_before a,
        after = arg_after a, startDate = arg_start_date a, endDate = arg_end_date a,
        keyword = arg_keyword a, author = arg_author a,
        hasAttachments = arg_has_attachments a\<rparr>
   \<and> targetLimit
        \<lparr>channelId = arg_channel_id a, limit = Some (num_or (Some 0) 50), before = arg_before a,
         after = arg_after a, startDate = arg_start_date a, endDate = arg_end_date a,
         keyword = arg_keyword a, author = arg_author a,
         hasAttachments = arg_has_attachments a\<rparr> = 50
   \<and> CallTool e \<lparr>tool_name = ''discord_get_messages_advanced'',
                  arguments = Some (a\<lparr>arg_limit := Some 0\<rparr>)\<rparr> =
       CallTool e \<lparr>tool_name = ''discord_get_messages_advanced'',
                  arguments = Some (a\<lparr>arg_limit := Some 50\<rparr>)\<rparr>
   \<and> CallTool e \<lparr>tool_name = ''discord_get_messages_advanced'',
                  arguments = Some (a\<lparr>arg_limit := Some 0\<rparr>)\<rparr> =
       CallTool e \<lparr>tool_name = ''discord_get_messages_advanced'',
                  arguments = Some (a\<lparr>arg_limit := None\<rparr>)\<rparr>"
  by (simp add: try_block_def CallTool_def targetLimit_def)

text \<open>
  Claim C9. Whatever is thrown inside a tool call is caught by the dispatcher and
  answered as the one text \<open>Error: <message>\<close>, which carries no message record; a call
  that throws nothing answers with the result of its tool.
\<close>

theorem failures_become_error_text:
  assumes "try_block e req = Inl x"
  shows "CallTool e req = Text_content [Lit (''Error: '' @ catch_text x)]
       \<and> response_messages (CallTool e req) = []"
  using assms by (simp add: CallTool_def)

lemma no_arguments:
  "arguments req = None \<Longrightarrow>
   CallTool e req = Text_content [Lit ''Error: Arguments are required'']"
  by (simp add: CallTool_def try_block_def)

lemma unknown_tool:
  assumes "arguments req = Some a"
    and "tool_name req \<notin> {''discord_send_message'', ''discord_send_image'',
           ''discord_get_messages'', ''discord_get_images'', ''discord_get_messages_advanced''}"
  shows "CallTool e req = Text_content [Lit (''Error: Unknown tool: '' @ tool_name req)]"
  using assms by (simp add: CallTool_def try_block_def)

lemma not_ready:
  assumes "\<not> isReady e" and "\<not> truthy (DISCORD_BOT_TOKEN e)"
  shows "open_channel e cid =
           Inl (ErrorObj ''Error'' ''DISCORD_BOT_TOKEN environment variable is required'')"
  using assms by (simp add: open_channel_def ensureDiscordReady_def)

lemma login_fails:
  assumes "\<not> isReady e" and "truthy (DISCORD_BOT_TOKEN e)"
    and "login e (the (DISCORD_BOT_TOKEN e)) = Some x"
  shows "open_channel e cid = Inl x"
  using assms by (simp add: open_channel_def ensureDiscordReady_def)

lemma channel_missing:
  assumes "ensureDiscordReady e = Inr ()"
    and "channels_fetch e cid = Inr None \<or>
         (\<exists>ch. channels_fetch e cid = Inr (Some ch) \<and> \<not> isTextBased ch)"
  shows "open_channel e cid =
           Inl (ErrorObj ''Error'' ''Channel not found or is not a text channel'')"
  using assms by (auto simp: open_channel_def)

lemma open_channel_fails:
  assumes "open_channel e (arg_channel_id a) = Inl x" and "arguments req = Some a"
    and "tool_name req \<in> {''discord_send_message'', ''discord_send_image'',
           ''discord_get_messages'', ''discord_get_images'', ''discord_get_messages_advanced''}"
  shows "CallTool e req = Text_content [Lit (''Error: '' @ catch_text x)]"
  using assms
  by (auto simp: CallTool_def try_block_def sendMessage_def sendImage_def getMessages_def
        getImages_def getMessagesAdvanced_def run_scan_def)

text \<open>A fetch that fails in any round of the scan fails the scan, whatever was accumulated.\<close>

lemma fetch_fails:
  assumes "reaches lc ch ps sd ed target st s" and "loop_cond target s"
    and "messages_fetch ch (length (calls s)) (fetchOptions ps s) = Inl x"
  shows "while_loop lc ch ps sd ed target st = Inl x"
proof -
  have "loop_body lc ch ps sd ed target s = Inl x"
    using assms(3) by (simp add: loop_body_def Let_def)
  then have "while_loop lc ch ps sd ed target s = Inl x"
    using assms(2) by (subst while_loop_unfold) simp
  then show ?thesis using reaches_while_loop [OF assms(1)] by simp
qed

lemma scan_fails:
  assumes "open_channel e (arg_channel_id a) = Inr ch"
    and "reaches (toLowerCase e) ch ps (parse_bound e (startDate ps)) (parse_bound e (endDate ps))
           (targetLimit ps) (initial_state ps) s"
    and "loop_cond (targetLimit ps) s"
    and "messages_fetch ch (length (calls s)) (fetchOptions ps s) = Inl x"
    and "ps = \<lparr>channelId = arg_channel_id a, limit = Some (num_or (arg_limit a) 50),
               before = arg_before a, after = arg_after a, startDate = arg_start_date a,
               endDate = arg_end_date a, keyword = arg_keyword a, author = arg_author a,
               hasAttachments = arg_has_attachments a\<rparr>"
  shows "CallTool e \<lparr>tool_name = ''discord_get_messages_advanced'', arguments = Some a\<rparr> =
           Text_content [Lit (''Error: '' @ catch_text x)]"
proof -
  have cid: "channelId ps = arg_channel_id a" using assms(5) by simp
  have "run_scan e ps = Inl x"
    using fetch_fails [OF assms(2,3,4)] assms(1) cid by (simp add: run_scan_def)
  then have "getMessagesAdvanced e ps = Inl x" by (simp add: getMessagesAdvanced_def)
  then show ?thesis using assms(5) by (simp add: CallTool_def try_block_def)
qed

theorem failures_become_error_text_witness:
  "try_block (test_env (serve [cut_page])) \<lparr>tool_name = ''discord_delete'', arguments = Some no_args\<rparr> =
     Inl (ErrorObj ''Error'' ''Unknown tool: discord_delete'')
   \<and> CallTool (test_env (serve [cut_page])) \<lparr>tool_name = ''discord_delete'', arguments = Some no_args\<rparr> =
     Text_content [Lit ''Error: Unknown tool: discord_delete'']
   \<and> response_messages
       (CallTool (test_env (serve [cut_page])) \<lparr>tool_name = ''discord_delete'', arguments = Some no_args\<rparr>) = []"
proof -
  have thrown: "try_block (test_env (serve [cut_page]))
                  \<lparr>tool_name = ''discord_delete'', arguments = Some no_args\<rparr> =
                Inl (ErrorObj ''Error'' ''Unknown tool: discord_delete'')"
    by (simp add: try_block_def)
  from failures_become_error_text [OF thrown] show ?thesis using thrown by simp
qed

section \<open>The order of the result\<close>

lemma sorted_sort_newest_first:
  "sorted_wrt (\<lambda>a b. createdTimestamp b \<le> createdTimestamp a) (sort_newest_first ms)"
proof -
  have "sorted (map (\<lambda>m. - createdTimestamp m) (sort_newest_first ms))"
    by (simp add: sort_newest_first_def)
  then show ?thesis by (simp add: sorted_map)
qed

lemma newest_first_snoc:
  "newest_first (acc @ [p]) \<longleftrightarrow> newest_first acc \<and> (\<forall>q\<in>set acc. p_timestamp p \<le> p_timestamp q)"
  by (auto simp: newest_first_def sorted_wrt_append)

lemma for_loop_newest_first:
  assumes "newest_first acc"
    and "sorted_wrt (\<lambda>a b. createdTimestamp b \<le> createdTimestamp a) ms"
    and "\<forall>p\<in>set acc. \<forall>m\<in>set ms. createdTimestamp m \<le> p_timestamp p"
  shows "newest_first (exit_messages (for_loop lc ps sd ed target acc ms))"
  using assms
proof (induction ms arbitrary: acc)
  case Nil
  then show ?case by (simp add: exit_messages_def)
next
  case (Cons a ms)
  have tail: "sorted_wrt (\<lambda>a b. createdTimestamp b \<le> createdTimestamp a) ms"
    and head: "\<forall>m\<in>set ms. createdTimestamp m \<le> createdTimestamp a"
    using Cons.prems(2) by simp_all
  have below: "\<forall>p\<in>set acc. \<forall>m\<in>set ms. createdTimestamp m \<le> p_timestamp p"
    using Cons.prems(3) by simp
  consider (old) "too_old sd a" | (skip) "\<not> too_old sd a" "\<not> passes lc ps sd ed a"
    | (push) "passes lc ps sd ed a" by blast
  then show ?case
  proof cases
    case old
    then show ?thesis using Cons.prems(1)
      by (simp add: for_loop_old exit_messages_def del: for_loop.simps)
  next
    case skip
    then show ?thesis using Cons.IH [OF Cons.prems(1) tail below]
      by (simp add: for_loop_skip del: for_loop.simps)
  next
    case push
    let ?acc = "acc @ [project a]"
    have sorted': "newest_first ?acc"
      using Cons.prems(1,3) by (simp add: newest_first_snoc project_def)
    have below': "\<forall>p\<in>set ?acc. \<forall>m\<in>set ms. createdTimestamp m \<le> p_timestamp p"
      using below head by (auto simp: project_def)
    show ?thesis
      using push sorted' Cons.IH [OF sorted' tail below']
      by (simp add: for_loop_push exit_messages_def del: for_loop.simps)
  qed
qed

lemma sorted_wrt_last_least:
  assumes "sorted_wrt (\<lambda>a b. createdTimestamp b \<le> createdTimestamp a) ms" and "m \<in> set ms"
  shows "createdTimestamp (last ms) \<le> createdTimestamp m"
  using assms
proof (induction ms)
  case Nil
  then show ?case by simp
next
  case (Cons a ms)
  show ?case
  proof (cases "ms = []")
    case True
    then show ?thesis using Cons.prems by simp
  next
    case False
    then have l: "last (a # ms) = last ms" and "last ms \<in> set ms" by simp_all
    then have "createdTimestamp (last ms) \<le> createdTimestamp a" using Cons.prems(1) by simp
    moreover have "m \<in> set ms \<Longrightarrow> createdTimestamp (last ms) \<le> createdTimestamp m"
      using Cons.IH Cons.prems(1) by simp
    ultimately show ?thesis using Cons.prems(2) l by auto
  qed
qed

text \<open>
  The invariant of the loop under a collaborator that honours the cursor: the messages
  are in order, and all of them are at least as new as the cursor.
\<close>

lemma loop_body_order:
  assumes hon: "honours_before stamp ch"
    and body: "loop_body lc ch ps sd ed target s = Inr bx"
    and sorted: "newest_first (allMessages s)"
    and cursor: "allMessages s \<noteq> [] \<longrightarrow>
           (\<exists>c. lastMessageId s = Some c \<and> c \<noteq> [] \<and>
                (\<forall>p\<in>set (allMessages s). stamp c \<le> p_timestamp p))"
  shows "newest_first (allMessages (body_state bx)) \<and>
         (\<forall>s'. bx = Body_next s' \<longrightarrow> allMessages s' \<noteq> [] \<longrightarrow>
            (\<exists>c. lastMessageId s' = Some c \<and> c \<noteq> [] \<and>
                 (\<forall>p\<in>set (allMessages s'). stamp c \<le> p_timestamp p)))"
proof -
  have batch: "newest_first (exit_messages (for_loop lc ps sd ed target (allMessages s)
                 (sort_newest_first (messages_of r))))"
    and origin: "\<forall>m\<in>set (messages_of r).
                   createdTimestamp m = stamp (msg_id m) \<and> msg_id m \<noteq> []"
    and older: "\<forall>p\<in>set (allMessages s). \<forall>m\<in>set (messages_of r).
                  createdTimestamp m \<le> p_timestamp p"
    if r: "messages_fetch ch (length (calls s)) (fetchOptions ps s) = Inr r" for r
  proof -
    show origin: "\<forall>m\<in>set (messages_of r).
                   createdTimestamp m = stamp (msg_id m) \<and> msg_id m \<noteq> []"
      using hon r unfolding honours_before_def by blast
    show older: "\<forall>p\<in>set (allMessages s). \<forall>m\<in>set (messages_of r).
                  createdTimestamp m \<le> p_timestamp p"
    proof (intro ballI)
      fix p m assume p: "p \<in> set (allMessages s)" and m: "m \<in> set (messages_of r)"
      then obtain c where c: "lastMessageId s = Some c" "c \<noteq> []" "stamp c \<le> p_timestamp p"
        using cursor by fastforce
      then have "fo_before (fetchOptions ps s) = Some c" by (simp add: fetchOptions_def)
      then have "stamp (msg_id m) \<le> stamp c"
        using hon r m unfolding honours_before_def by blast
      then show "createdTimestamp m \<le> p_timestamp p" using origin m c(3) by simp
    qed
    show "newest_first (exit_messages (for_loop lc ps sd ed target (allMessages s)
                 (sort_newest_first (messages_of r))))"
      by (rule for_loop_newest_first [OF sorted sorted_sort_newest_first]) (use older in simp)
  qed
  from body show ?thesis
  proof (cases rule: loop_body_cases)
    case (no_batch r)
    then show ?thesis using sorted by (simp add: body_state_def)
  next
    case (stopped r acc)
    then show ?thesis using batch [OF stopped(1)] by (simp add: body_state_def exit_messages_def)
  next
    case (finished r acc)
    let ?xs = "sort_newest_first (messages_of r)"
    let ?c = "msg_id (last ?xs)"
    have ne: "?xs \<noteq> []" using finished(2) by (metis length_sort_newest_first length_0_conv)
    then have lastin: "last ?xs \<in> set (messages_of r)"
      using last_in_set [OF ne] by simp
    have cne: "?c \<noteq> []" and cst: "stamp ?c = createdTimestamp (last ?xs)"
      using origin [OF finished(1)] lastin by simp_all
    have least: "createdTimestamp (last ?xs) \<le> createdTimestamp m" if "m \<in> set (messages_of r)" for m
      using sorted_wrt_last_least [OF sorted_sort_newest_first, of m "messages_of r"] that by simp
    have bound: "stamp ?c \<le> p_timestamp p" if p: "p \<in> set acc" for p
    proof -
      have "p \<in> set (exit_messages (for_loop lc ps sd ed target (allMessages s) ?xs))"
        using p finished(3) by (simp add: exit_messages_def)
      from for_loop_members [OF this] show ?thesis
      proof
        assume old: "p \<in> set (allMessages s)"
        then have "createdTimestamp (last ?xs) \<le> p_timestamp p"
          using older [OF finished(1)] lastin by blast
        then show ?thesis using cst by simp
      next
        assume "\<exists>m\<in>set ?xs. passes lc ps sd ed m \<and> p = project m"
        then obtain m where "m \<in> set (messages_of r)" "p = project m" by auto
        then show ?thesis using least cst by (simp add: project_def)
      qed
    qed
    have "newest_first acc"
      using batch [OF finished(1)] finished(3) by (simp add: exit_messages_def)
    then show ?thesis using finished(4) cne bound by (auto simp: body_state_def)
  qed
qed

lemma while_loop_order:
  assumes hon: "honours_before stamp ch"
    and run: "while_loop lc ch ps sd ed target st = Inr ex" and init: "allMessages st = []"
  shows "newest_first (allMessages (exit_state ex))"
proof -
  let ?J = "\<lambda>s. newest_first (allMessages s) \<and>
              (allMessages s \<noteq> [] \<longrightarrow>
                 (\<exists>c. lastMessageId s = Some c \<and> c \<noteq> [] \<and>
                      (\<forall>p\<in>set (allMessages s). stamp c \<le> p_timestamp p)))"
  from while_loop_ends [OF run] obtain s where
    r: "reaches lc ch ps sd ed target st s" and
    e: "\<not> loop_cond target s \<and> ex = Exited s \<or>
        loop_cond target s \<and>
          (\<exists>s'. loop_body lc ch ps sd ed target s = Inr (Body_break s') \<and> ex = Exited s' \<or>
                loop_body lc ch ps sd ed target s = Inr (Body_return s') \<and> ex = Returned s')"
    by blast
  have J: "?J s"
  proof (rule reaches_next_invariant [OF r, where I = ?J])
    show "?J st" using init by (simp add: newest_first_def)
  next
    fix s s'
    assume "?J s" and "loop_body lc ch ps sd ed target s = Inr (Body_next s')"
    then show "?J s'"
      using loop_body_order [OF hon, of lc ps sd ed target s "Body_next s'"]
      by (simp add: body_state_def)
  qed
  from e show ?thesis
  proof (elim disjE conjE exE)
    assume "ex = Exited s"
    then show ?thesis using J by (simp add: exit_state_def)
  next
    fix s' assume "loop_body lc ch ps sd ed target s = Inr (Body_break s')" "ex = Exited s'"
    then show ?thesis
      using loop_body_order [OF hon, of lc ps sd ed target s "Body_break s'"] J
      by (simp add: body_state_def exit_state_def)
  next
    fix s' assume "loop_body lc ch ps sd ed target s = Inr (Body_return s')" "ex = Returned s'"
    then show ?thesis
      using loop_body_order [OF hon, of lc ps sd ed target s "Body_return s'"] J
      by (simp add: body_state_def exit_state_def)
  qed
qed

text \<open>
  Claim C4. The messages of a response of \<open>getMessagesAdvanced\<close> are in non-increasing
  order of creation time: each batch is sorted newest first by the scan itself, and the
  batches follow each other backwards in time when the collaborator pages as the cursor
  asks, bringing for a \<open>before\<close> cursor no message newer than the cursor.
\<close>

theorem results_newest_first:
  assumes "getMessagesAdvanced e ps = Inr (Text_content parts)"
    and "Json_messages ms \<in> set parts"
    and "\<forall>ch. channels_fetch e (channelId ps) = Inr (Some ch) \<longrightarrow> honours_before stamp ch"
  shows "sorted_wrt (\<lambda>a b. p_timestamp b \<le> p_timestamp a) ms"
proof -
  obtain ex where ex: "run_scan e ps = Inr ex"
    and resp: "respond ps (parse_bound e (startDate ps)) (parse_bound e (endDate ps)) ex =
                 Inr (Text_content parts)"
    using assms(1) by (auto simp: getMessagesAdvanced_def split: sum.splits)
  obtain ch where ch: "open_channel e (channelId ps) = Inr ch"
    and loop: "while_loop (toLowerCase e) ch ps (parse_bound e (startDate ps)) (parse_bound e (endDate ps))
                 (targetLimit ps) (initial_state ps) = Inr ex"
    using ex by (rule run_scan_loop)
  have "honours_before stamp ch" using assms(3) open_channel_fetched [OF ch] by blast
  from while_loop_order [OF this loop] have "newest_first (allMessages (exit_state ex))"
    by simp
  then show ?thesis using respond_messages [OF resp assms(2)] by (simp add: newest_first_def)
qed

lemma cursor_fetch_honours:
  assumes "\<forall>m\<in>set hist. createdTimestamp m = id_stamp (msg_id m) \<and> msg_id m \<noteq> []"
  shows "honours_before id_stamp (test_channel (cursor_fetch hist))"
  unfolding honours_before_def
proof (intro allI impI)
  fix i opts r m
  assume f: "messages_fetch (test_channel (cursor_fetch hist)) i opts = Inr r"
    and m: "m \<in> set (messages_of r)"
  let ?keep = "\<lambda>m. case fo_before opts of None \<Rightarrow> True
                     | Some c \<Rightarrow> id_stamp (msg_id m) < id_stamp c"
  have "r = A_collection (take (nat (fo_limit opts)) (filter ?keep hist))"
    using f by (auto simp: test_channel_def cursor_fetch_def)
  then have "m \<in> set (filter ?keep hist)" using m by (auto dest: in_set_takeD)
  then have "m \<in> set hist" and keep: "?keep m" by simp_all
  then have "createdTimestamp m = id_stamp (msg_id m) \<and> msg_id m \<noteq> []" using assms by blast
  moreover have "\<forall>c. fo_before opts = Some c \<longrightarrow> id_stamp (msg_id m) \<le> id_stamp c"
    using keep by (auto split: option.splits)
  ultimately show "createdTimestamp m = id_stamp (msg_id m) \<and> msg_id m \<noteq> [] \<and>
                   (\<forall>c. fo_before opts = Some c \<longrightarrow> id_stamp (msg_id m) \<le> id_stamp c)"
    by blast
qed

theorem results_newest_first_witness:
  "getMessagesAdvanced (test_env (cursor_fetch cut_page)) no_filters =
     Inr (Text_content cut_response)
   \<and> Json_messages (map project cut_page) \<in> set cut_response
   \<and> honours_before id_stamp (test_channel (cursor_fetch cut_page))
   \<and> sorted_wrt (\<lambda>a b. p_timestamp b \<le> p_timestamp a) (map project cut_page)"
proof -
  let ?e = "test_env (cursor_fetch cut_page)"
  have run: "getMessagesAdvanced ?e no_filters = Inr (Text_content cut_response)"
    by code_simp
  have part: "Json_messages (map project cut_page) \<in> set cut_response"
    by (simp add: cut_response_def)
  have ids: "\<forall>m\<in>set cut_page. createdTimestamp m = id_stamp (msg_id m) \<and> msg_id m \<noteq> []"
    by code_simp
  have hon: "honours_before id_stamp (test_channel (cursor_fetch cut_page))"
    by (rule cursor_fetch_honours [OF ids])
  have "\<forall>ch. channels_fetch ?e (channelId no_filters) = Inr (Some ch) \<longrightarrow>
          honours_before id_stamp ch"
    using hon by (simp add: test_env_def)
  from results_newest_first [OF run part this] show ?thesis using run part hon by blast
qed

section \<open>The length of the result\<close>

lemma for_loop_length:
  assumes "int (length acc) < target"
  shows "int (length (exit_messages (for_loop lc ps sd ed target acc ms))) \<le> target"
  using assms
proof (induction ms arbitrary: acc)
  case Nil
  then show ?case by (simp add: exit_messages_def)
next
  case (Cons a ms)
  consider (old) "too_old sd a" | (skip) "\<not> too_old sd a" "\<not> passes lc ps sd ed a"
    | (push) "passes lc ps sd ed a" by blast
  then show ?case
  proof cases
    case old
    then show ?thesis using Cons.prems
      by (simp add: for_loop_old exit_messages_def del: for_loop.simps)
  next
    case skip
    then show ?thesis using Cons.IH [OF Cons.prems]
      by (simp add: for_loop_skip del: for_loop.simps)
  next
    case push
    show ?thesis
    proof (cases "int (length acc) + 1 \<ge> target")
      case True
      then show ?thesis using push Cons.prems
        by (simp add: for_loop_push exit_messages_def del: for_loop.simps)
    next
      case False
      then have "int (length (acc @ [project a])) < target" by simp
      from Cons.IH [OF this] show ?thesis using push False
        by (simp add: for_loop_push del: for_loop.simps)
    qed
  qed
qed

text \<open>The result is never longer than the target, for a target that is not negative.\<close>

lemma while_loop_length:
  assumes "while_loop lc ch ps sd ed target st = Inr ex" and "allMessages st = []"
  shows "int (length (allMessages (exit_state ex))) \<le> max 0 target"
proof (rule while_loop_invariant [OF assms(1),
         where I = "\<lambda>s. int (length (allMessages s)) \<le> max 0 target"])
  show "int (length (allMessages st)) \<le> max 0 target" using assms(2) by simp
next
  fix s bx
  assume c: "loop_cond target s" and b: "loop_body lc ch ps sd ed target s = Inr bx"
    and I: "int (length (allMessages s)) \<le> max 0 target"
  have lt: "int (length (allMessages s)) < target" using c by (simp add: loop_cond_def)
  from b show "int (length (allMessages (body_state bx))) \<le> max 0 target"
  proof (cases rule: loop_body_cases)
    case (no_batch r)
    then show ?thesis using I by (simp add: body_state_def)
  next
    case (stopped r acc)
    then show ?thesis
      using for_loop_length [OF lt, of lc ps sd ed "sort_newest_first (messages_of r)"]
      by (simp add: body_state_def exit_messages_def)
  next
    case (finished r acc)
    then show ?thesis
      using for_loop_length [OF lt, of lc ps sd ed "sort_newest_first (messages_of r)"]
      by (simp add: body_state_def exit_messages_def)
  qed
qed

lemma advanced_length:
  assumes "getMessagesAdvanced e ps = Inr (Text_content parts)"
    and "Json_messages ms \<in> set parts"
  shows "int (length ms) \<le> max 0 (targetLimit ps)"
proof -
  obtain ex where ex: "run_scan e ps = Inr ex"
    and resp: "respond ps (parse_bound e (startDate ps)) (parse_bound e (endDate ps)) ex =
                 Inr (Text_content parts)"
    using assms(1) by (auto simp: getMessagesAdvanced_def split: sum.splits)
  obtain ch where
    loop: "while_loop (toLowerCase e) ch ps (parse_bound e (startDate ps)) (parse_bound e (endDate ps))
             (targetLimit ps) (initial_state ps) = Inr ex"
    using ex by (rule run_scan_loop)
  from while_loop_length [OF loop] show ?thesis
    using respond_messages [OF resp assms(2)] by simp
qed

text \<open>With no filter and no date, the \<open>for\<close> loop takes messages until the target is met.\<close>

lemma passes_no_filters:
  assumes "\<not> truthy (keyword ps)" "\<not> truthy (author ps)" "hasAttachments ps \<noteq> Some True"
  shows "passes lc ps None None m"
  using assms by (simp add: passes_def keyword_skip_def author_skip_def attachment_skip_def)

lemma for_loop_no_filters:
  assumes "\<not> truthy (keyword ps)" "\<not> truthy (author ps)" "hasAttachments ps \<noteq> Some True"
    and "int (length acc) < target"
  shows "for_loop lc ps None None target acc ms =
           For_done (acc @ map project (take (nat (target - int (length acc))) ms))"
  using assms(4)
proof (induction ms arbitrary: acc)
  case Nil
  then show ?case by simp
next
  case (Cons a ms)
  have push: "passes lc ps None None a" by (rule passes_no_filters [OF assms(1,2,3)])
  have pos: "nat (target - int (length acc)) = Suc (nat (target - int (length acc) - 1))"
    using Cons.prems by simp
  show ?case
  proof (cases "int (length acc) + 1 \<ge> target")
    case True
    then have "nat (target - int (length acc) - 1) = 0" by simp
    then show ?thesis using push True pos
      by (simp add: for_loop_push del: for_loop.simps)
  next
    case False
    then have lt: "int (length (acc @ [project a])) < target" by simp
    have "nat (target - int (length (acc @ [project a]))) = nat (target - int (length acc) - 1)"
      by simp
    then show ?thesis using push False pos Cons.IH [OF lt]
      by (simp add: for_loop_push del: for_loop.simps)
  qed
qed

lemma loop_body_finished:
  assumes "messages_fetch ch (length (calls st)) (fetchOptions ps st) = Inr r"
    and "messages_of r \<noteq> []"
    and "for_loop lc ps sd ed target (allMessages st) (sort_newest_first (messages_of r)) =
           For_done acc"
  shows "loop_body lc ch ps sd ed target st =
           Inr ((if length (messages_of r) < 100 then Body_break else Body_next)
                  (st\<lparr>iterations := iterations st + 1,
                      calls := calls st @ [fetchOptions ps st], allMessages := acc,
                      lastMessageId := Some (msg_id (last (sort_newest_first (messages_of r)))),
                      totalFetched := totalFetched st + length (messages_of r)\<rparr>))"
proof -
  have "sort_newest_first (messages_of r) \<noteq> []"
    using assms(2) by (metis length_sort_newest_first length_0_conv)
  then show ?thesis using assms by (simp add: loop_body_def Let_def)
qed

text \<open>
  A scan without filters for 101 messages, on a channel whose first two pages are full,
  takes the whole first page and one message of the second.
\<close>

lemma scan_past_one_page:
  assumes l1: "length b1 = 100" and l2: "length b2 = 100"
    and nf: "\<not> truthy (keyword ps)" "\<not> truthy (author ps)" "hasAttachments ps \<noteq> Some True"
  shows "\<exists>s. while_loop lc (test_channel (serve [b1, b2])) ps None None 101 (initial_state ps) =
               Inr (Exited s) \<and> length (allMessages s) = 101"
proof -
  let ?ch = "test_channel (serve [b1, b2])"
  let ?s0 = "initial_state ps"
  let ?x1 = "sort_newest_first b1" and ?x2 = "sort_newest_first b2"
  let ?s1 = "?s0\<lparr>iterations := iterations ?s0 + 1,
                  calls := calls ?s0 @ [fetchOptions ps ?s0], allMessages := map project ?x1,
                  lastMessageId := Some (msg_id (last ?x1)),
                  totalFetched := totalFetched ?s0 + length b1\<rparr>"
  let ?acc2 = "map project ?x1 @ map project (take 1 ?x2)"
  let ?s2 = "?s1\<lparr>iterations := iterations ?s1 + 1,
                  calls := calls ?s1 @ [fetchOptions ps ?s1], allMessages := ?acc2,
                  lastMessageId := Some (msg_id (last ?x2)),
                  totalFetched := totalFetched ?s1 + length b2\<rparr>"
  have f1: "messages_fetch ?ch (length (calls ?s0)) (fetchOptions ps ?s0) = Inr (A_collection b1)"
    by (simp add: test_channel_def serve_def)
  have f2: "messages_fetch ?ch (length (calls ?s1)) (fetchOptions ps ?s1) = Inr (A_collection b2)"
    by (simp add: test_channel_def serve_def)
  have ne1: "messages_of (A_collection b1) \<noteq> []" and ne2: "messages_of (A_collection b2) \<noteq> []"
    using l1 l2 by auto
  have "for_loop lc ps None None 101 (allMessages ?s0) ?x1 =
          For_done ([] @ map project (take (nat (101 - int (length ([]::projection list)))) ?x1))"
    using for_loop_no_filters [OF nf, of "[]" 101 lc ?x1] by simp
  then have fl1: "for_loop lc ps None None 101 (allMessages ?s0)
                    (sort_newest_first (messages_of (A_collection b1))) =
                  For_done (map project ?x1)"
    using l1 by simp
  have "for_loop lc ps None None 101 (map project ?x1) ?x2 =
          For_done (map project ?x1 @
                    map project (take (nat (101 - int (length (map project ?x1)))) ?x2))"
    by (rule for_loop_no_filters [OF nf]) (simp add: l1)
  then have fl2: "for_loop lc ps None None 101 (allMessages ?s1)
                    (sort_newest_first (messages_of (A_collection b2))) = For_done ?acc2"
    using l1 by simp
  have b1: "loop_body lc ?ch ps None None 101 ?s0 = Inr (Body_next ?s1)"
    using loop_body_finished [OF f1 ne1 fl1] l1 by simp
  have b2: "loop_body lc ?ch ps None None 101 ?s1 = Inr (Body_next ?s2)"
    using loop_body_finished [OF f2 ne2 fl2] l2 by simp
  have len: "length (allMessages ?s2) = 101"
    using l1 l2 by simp
  have c0: "loop_cond 101 ?s0" by (simp add: loop_cond_def maxIterations_def)
  have c1: "loop_cond 101 ?s1" using l1 by (simp add: loop_cond_def maxIterations_def)
  have c2: "\<not> loop_cond 101 ?s2" using len by (simp add: loop_cond_def)
  have "while_loop lc ?ch ps None None 101 ?s2 = Inr (Exited ?s2)"
    using c2 by (subst while_loop_unfold) simp
  then have "while_loop lc ?ch ps None None 101 ?s1 = Inr (Exited ?s2)"
    using c1 b2 by (subst while_loop_unfold) simp
  then have "while_loop lc ?ch ps None None 101 ?s0 = Inr (Exited ?s2)"
    using c0 b1 by (subst while_loop_unfold) simp
  then show ?thesis using len by blast
qed

lemma length_page [simp]: "length (page lo hi) = hi - lo"
  by (simp add: page_def)

text \<open>
  Claim C2: the code does not cap the limit. The tool called with a limit of 101, on a
  channel with two full pages of history, answers with 101 messages. (For a target that
  is not negative the result is never longer than the target: \<open>advanced_length\<close>.)
\<close>

theorem limit_is_not_capped:
  "length (response_messages
     (CallTool (test_env (serve [page 101 201, page 1 101]))
        \<lparr>tool_name = ''discord_get_messages_advanced'',
         arguments = Some (no_args\<lparr>arg_limit := Some 101\<rparr>)\<rparr>)) = 101"
proof -
  let ?e = "test_env (serve [page 101 201, page 1 101])"
  let ?ps = "\<lparr>channelId = ''7'', limit = Some 101, before = None, after = None,
              startDate = None, endDate = None, keyword = None, author = None,
              hasAttachments = None\<rparr>"
  have call: "try_block ?e \<lparr>tool_name = ''discord_get_messages_advanced'',
                           arguments = Some (no_args\<lparr>arg_limit := Some 101\<rparr>)\<rparr> =
              getMessagesAdvanced ?e ?ps"
    by (simp add: try_block_def no_args_def)
  obtain s where
    loop: "while_loop ascii_lower (test_channel (serve [page 101 201, page 1 101])) ?ps None None 101
             (initial_state ?ps) = Inr (Exited s)"
    and len: "length (allMessages s) = 101"
    using scan_past_one_page [of "page 101 201" "page 1 101" ?ps] by auto
  have "run_scan ?e ?ps = Inr (Exited s)"
    using loop
    by (simp add: run_scan_def open_channel_def ensureDiscordReady_def test_env_def
          test_channel_def parse_bound_def targetLimit_def)
  then have "\<exists>sm. getMessagesAdvanced ?e ?ps =
               Inr (Text_content
                      [Lit ''Advanced search results:\<newline>\<newline>Summary: '', Json_summary sm,
                       Lit ''\<newline>\<newline>Messages:\<newline>'', Json_messages (allMessages s)])"
    by (simp add: getMessagesAdvanced_def respond_def make_summary_def dateRange_def
          parse_bound_def)
  then have "response_messages
     (CallTool ?e \<lparr>tool_name = ''discord_get_messages_advanced'',
                   arguments = Some (no_args\<lparr>arg_limit := Some 101\<rparr>)\<rparr>) = allMessages s"
    using call by (auto simp: CallTool_def)
  then show ?thesis using len by simp
qed

section \<open>The end date skips, the start date stops\<close>







section \<open>An empty author\<close>

text \<open>
  Claim C1, as it is stated, fails for an author that is supplied and empty: the code
  tests the author for truthiness, takes the empty string for no author, and returns
  messages whose author name and id are not the supplied string.
\<close>

theorem empty_author_counterexample:
  "author empty_author = Some []
   \<and> getMessagesAdvanced (test_env (serve [cut_page])) empty_author =
       Inr (Text_content cut_response)
   \<and> Json_messages (map project cut_page) \<in> set cut_response
   \<and> project (nth_msg 5) \<in> set (map project cut_page)
   \<and> p_author (project (nth_msg 5)) \<noteq> []
   \<and> p_authorId (project (nth_msg 5)) \<noteq> []"
proof -
  have "getMessagesAdvanced (test_env (serve [cut_page])) empty_author =
          Inr (Text_content cut_response)"
    by code_simp
  moreover have "Json_messages (map project cut_page) \<in> set cut_response"
    by (simp add: cut_response_def)
  moreover have "project (nth_msg 5) \<in> set (map project cut_page)"
    by (simp add: cut_page_def)
  moreover have "p_author (project (nth_msg 5)) \<noteq> [] \<and> p_authorId (project (nth_msg 5)) \<noteq> []"
    by (simp add: project_def nth_msg_def mk_msg_def)
  ultimately show ?thesis by (simp add: empty_author_def)
qed

end
